theory Spec2Isabelle
  imports Main "HOL-Library.FSet" "HOL-Library.AList" "HOL-Library.Word"
    "HOL-Library.List_Lexorder" "HOL-Library.Char_ord"
begin

section \<open>Data model of \<open>douyin_live_crawler.py\<close>\<close>

text \<open>
  Python \<open>bytes\<close> are lists of octets, Python \<open>str\<close> values are \<open>string\<close>s and Python
  integers are unbounded \<open>int\<close>s.
\<close>

type_synonym bytes = "8 word list"

subsection \<open>Wire records (the classes imported from \<open>protobuf.douyin\<close>)\<close>

record user =
  user_id :: int
  nick_name :: string

record message =
  msg_method :: string
  payload :: bytes

record push_frame =
  log_id :: int
  payload_type :: string
  frame_payload :: bytes

record response =
  messages_list :: "message list"
  need_ack :: bool
  internal_ext :: string

record chat_message =
  chat_user :: user
  content :: string

record gift_struct =
  name :: string
  diamond_count :: int

record gift_message =
  gift_user :: user
  gift :: gift_struct
  repeat_count :: int

record member_message =
  member_user :: user

record like_message =
  like_count :: int

record social_message =
  social_user :: user

record room_user_seq_message =
  total_user :: int

text \<open>
  The generated protobuf classes, \<open>gzip\<close> and the UTF-8 encoder are not part of the
  source file: the decoders are parameters of the model. A decoder returns \<open>None\<close> where
  the Python call raises.
\<close>

record codec =
  parse_push_frame :: "bytes \<Rightarrow> push_frame option"
  gzip_decompress :: "bytes \<Rightarrow> bytes option"
  parse_response :: "bytes \<Rightarrow> response option"
  parse_chat :: "bytes \<Rightarrow> chat_message option"
  parse_gift :: "bytes \<Rightarrow> gift_message option"
  parse_member :: "bytes \<Rightarrow> member_message option"
  parse_like :: "bytes \<Rightarrow> like_message option"
  parse_social :: "bytes \<Rightarrow> social_message option"
  parse_room_user_seq :: "bytes \<Rightarrow> room_user_seq_message option"
  serialize_push_frame :: "push_frame \<Rightarrow> bytes"
  encode_utf8 :: "string \<Rightarrow> bytes"

subsection \<open>Python collections that change representation\<close>

text \<open>
  \<open>senders\<close> and \<open>members\<close> hold either a Python \<open>set\<close> or a Python \<open>list\<close>; the
  handlers test \<open>isinstance(..., set)\<close>, so the representation is part of the value.
\<close>

datatype pycoll = PySet "string fset" | PyList "string list"

fun elems :: "pycoll \<Rightarrow> string fset" where
  "elems (PySet S) = S"
| "elems (PyList xs) = fset_of_list xs"

fun is_set :: "pycoll \<Rightarrow> bool" where
  "is_set (PySet S) = True"
| "is_set (PyList xs) = False"

text \<open>\<open>x if isinstance(x, set) else set(x)\<close>\<close>

fun ensure_set :: "pycoll \<Rightarrow> pycoll" where
  "ensure_set (PySet S) = PySet S"
| "ensure_set (PyList xs) = PySet (fset_of_list xs)"

text \<open>\<open>c.add(x)\<close>: a list has no \<open>add\<close> (AttributeError, here \<open>None\<close>).\<close>

fun py_add :: "string \<Rightarrow> pycoll \<Rightarrow> pycoll option" where
  "py_add x (PySet S) = Some (PySet (finsert x S))"
| "py_add x (PyList xs) = None"

text \<open>\<open>len(c)\<close>\<close>

fun py_len :: "pycoll \<Rightarrow> nat" where
  "py_len (PySet S) = fcard S"
| "py_len (PyList xs) = length xs"

subsection \<open>\<open>str(n)\<close> for integers\<close>

definition digit_char :: "nat \<Rightarrow> char" where
  "digit_char d = char_of (48 + d)"

function str_nat :: "nat \<Rightarrow> string" where
  "str_nat n = (if n < 10 then [digit_char n] else str_nat (n div 10) @ [digit_char (n mod 10)])"
  by pat_completeness auto
termination
  by (relation "measure (\<lambda>n. n)") auto

declare str_nat.simps [simp del]

definition str_int :: "int \<Rightarrow> string" where
  "str_int i = (if i < 0 then CHR ''-'' # str_nat (nat (- i)) else str_nat (nat i))"

subsection \<open>The session aggregate \<open>self.data\<close> and the crawler object\<close>

record gift_stat =
  count :: int
  total_value :: int
  senders :: pycoll

record chat_entry =
  ce_timestamp :: int
  ce_user_id :: string
  ce_nickname :: string
  ce_content :: string
  ce_type :: string

record follow_entry =
  fe_timestamp :: int
  fe_user_id :: string
  fe_nickname :: string

text \<open>
  \<open>self.data\<close>. The \<open>gifts\<close> dict is an association list in insertion order, as a
  Python dict is; each value is the inner dict \<open>{count, total_value, senders}\<close>.
\<close>

record aggregate =
  d_live_id :: string
  d_date :: string
  d_session :: int
  d_user_id :: string
  d_nickname :: string
  total_viewers :: int
  total_likes :: int
  chat_messages :: "chat_entry list"
  gifts :: "(string \<times> gift_stat) list"
  members :: pycoll
  follows :: "follow_entry list"

text \<open>What a handler writes to the logger.\<close>

datatype log_entry =
    InfoChat string string
  | InfoGift string string int
  | InfoEntered string
  | InfoLikes int
  | InfoFollow string
  | InfoSaved string
  | InfoStopping
  | InfoStopped
  | WarnNoRoomId
  | WarnClose
  | ErrorHomePage
  | ErrorRoomPage
  | ErrorOnMessage
  | DebugOnMessage bytes
  | ErrorProcessMessage string
  | ErrorChat
  | ErrorGift
  | ErrorMember
  | ErrorLike
  | ErrorFollow
  | ErrorViewerCount
  | ErrorSave

text \<open>The snapshot handed to \<open>json.dump\<close>: \<open>data_copy\<close> with its \<open>stats\<close> block.\<close>

record stats =
  total_chat_messages :: nat
  total_members :: nat
  total_follows :: nat
  total_gift_types :: nat
  save_time :: int

record snapshot =
  snap_data :: aggregate
  snap_stats :: stats

text \<open>Effects visible outside the object, in the order they happen.\<close>

datatype effect =
    Log log_entry
  | WsSend bytes bool
  | WsClose bool
  | FileWrite string snapshot

record crawler =
  live_id :: string
  today :: string
  session_count :: int
  data :: aggregate
  cache_members :: "string fset"
  cache_gifts :: "string fset"
  is_running :: bool
  auto_save_running :: bool
  is_live :: bool
  ttwid_cache :: "string option"
  room_id_cache :: "string option"
  trace :: "effect list"

definition emit :: "effect \<Rightarrow> crawler \<Rightarrow> crawler" where
  "emit e s = s\<lparr>trace := trace s @ [e]\<rparr>"

definition logger :: "log_entry \<Rightarrow> crawler \<Rightarrow> crawler" where
  "logger l s = emit (Log l) s"

section \<open>Aggregator handlers\<close>

text \<open>
  Each handler is \<open>try: ... except Exception: logger.error(...)\<close>: a failed decode logs and
  leaves the aggregate as it is. \<open>now\<close> is the reading of \<open>time.time()\<close> truncated by
  \<open>int\<close>.
\<close>

definition process_chat_message :: "codec \<Rightarrow> int \<Rightarrow> message \<Rightarrow> crawler \<Rightarrow> crawler" where
  "process_chat_message D now msg s =
     (case parse_chat D (payload msg) of
        None \<Rightarrow> logger ErrorChat s
      | Some chat_msg \<Rightarrow>
          let u = chat_user chat_msg;
              message_data = \<lparr>ce_timestamp = now, ce_user_id = str_int (user_id u),
                              ce_nickname = nick_name u, ce_content = content chat_msg,
                              ce_type = ''chat''\<rparr>
          in logger (InfoChat (nick_name u) (content chat_msg))
               (s\<lparr>data := (data s)\<lparr>chat_messages := chat_messages (data s) @ [message_data]\<rparr>\<rparr>))"

definition new_gift_stat :: gift_stat where
  "new_gift_stat = \<lparr>count = 0, total_value = 0, senders = PySet {||}\<rparr>"

definition process_gift_message :: "codec \<Rightarrow> message \<Rightarrow> crawler \<Rightarrow> crawler" where
  "process_gift_message D msg s =
     (case parse_gift D (payload msg) of
        None \<Rightarrow> logger ErrorGift s
      | Some gift_msg \<Rightarrow>
          let u = gift_user gift_msg;
              gift_name = name (gift gift_msg);
              gift_count = repeat_count gift_msg;
              gift_value = diamond_count (gift gift_msg) * gift_count;
              g0 = gifts (data s);
              g1 = (if map_of g0 gift_name = None
                    then AList.update gift_name new_gift_stat g0 else g0);
              g2 = AList.map_entry gift_name (\<lambda>st. st\<lparr>senders := ensure_set (senders st)\<rparr>) g1;
              g3 = AList.map_entry gift_name (\<lambda>st. st\<lparr>count := count st + gift_count\<rparr>) g2;
              g4 = AList.map_entry gift_name
                     (\<lambda>st. st\<lparr>total_value := total_value st + gift_value\<rparr>) g3
          in (case map_of g4 gift_name of
                None \<Rightarrow> logger ErrorGift (s\<lparr>data := (data s)\<lparr>gifts := g4\<rparr>\<rparr>)
              | Some st \<Rightarrow>
                  (case py_add (nick_name u) (senders st) of
                     None \<Rightarrow> logger ErrorGift (s\<lparr>data := (data s)\<lparr>gifts := g4\<rparr>\<rparr>)
                   | Some c \<Rightarrow>
                       logger (InfoGift (nick_name u) gift_name gift_count)
                         (s\<lparr>data := (data s)\<lparr>gifts :=
                               AList.map_entry gift_name (\<lambda>st. st\<lparr>senders := c\<rparr>) g4\<rparr>\<rparr>))))"

definition process_member_message :: "codec \<Rightarrow> message \<Rightarrow> crawler \<Rightarrow> crawler" where
  "process_member_message D msg s =
     (case parse_member D (payload msg) of
        None \<Rightarrow> logger ErrorMember s
      | Some member_msg \<Rightarrow>
          let u = member_user member_msg;
              user_key = str_int (user_id u)
          in if user_key |\<notin>| cache_members s then
               let s1 = (if \<not> is_set (members (data s))
                         then s\<lparr>data := (data s)\<lparr>members := ensure_set (members (data s))\<rparr>\<rparr>
                         else s);
                   s2 = s1\<lparr>cache_members := finsert user_key (cache_members s1)\<rparr>
               in (case py_add (nick_name u) (members (data s2)) of
                     None \<Rightarrow> logger ErrorMember s2
                   | Some c \<Rightarrow>
                       logger (InfoEntered (nick_name u))
                         (s2\<lparr>data := (data s2)\<lparr>members := c\<rparr>\<rparr>))
             else s)"

definition process_like_message :: "codec \<Rightarrow> message \<Rightarrow> crawler \<Rightarrow> crawler" where
  "process_like_message D msg s =
     (case parse_like D (payload msg) of
        None \<Rightarrow> logger ErrorLike s
      | Some like_msg \<Rightarrow>
          let c = like_count like_msg;
              s1 = s\<lparr>data := (data s)\<lparr>total_likes := total_likes (data s) + c\<rparr>\<rparr>
          in if c > 1 then logger (InfoLikes c) s1 else s1)"

definition process_follow_message :: "codec \<Rightarrow> int \<Rightarrow> message \<Rightarrow> crawler \<Rightarrow> crawler" where
  "process_follow_message D now msg s =
     (case parse_social D (payload msg) of
        None \<Rightarrow> logger ErrorFollow s
      | Some social_msg \<Rightarrow>
          let u = social_user social_msg;
              follow_data = \<lparr>fe_timestamp = now, fe_user_id = str_int (user_id u),
                             fe_nickname = nick_name u\<rparr>
          in logger (InfoFollow (nick_name u))
               (s\<lparr>data := (data s)\<lparr>follows := follows (data s) @ [follow_data]\<rparr>\<rparr>))"

definition process_viewer_count :: "codec \<Rightarrow> message \<Rightarrow> crawler \<Rightarrow> crawler" where
  "process_viewer_count D msg s =
     (case parse_room_user_seq D (payload msg) of
        None \<Rightarrow> logger ErrorViewerCount s
      | Some seq_msg \<Rightarrow> s\<lparr>data := (data s)\<lparr>total_viewers := total_user seq_msg\<rparr>\<rparr>)"

section \<open>Message dispatcher\<close>

text \<open>
  The \<open>if/elif\<close> chain on \<open>msg.method\<close>; a tag outside the six is passed over. The outer
  \<open>except\<close> of the source is never reached, since every handler catches its own
  exceptions.
\<close>

definition process_message :: "codec \<Rightarrow> int \<Rightarrow> message \<Rightarrow> crawler \<Rightarrow> crawler" where
  "process_message D now msg s =
     (if msg_method msg = ''WebcastChatMessage'' then process_chat_message D now msg s
      else if msg_method msg = ''WebcastGiftMessage'' then process_gift_message D msg s
      else if msg_method msg = ''WebcastMemberMessage'' then process_member_message D msg s
      else if msg_method msg = ''WebcastLikeMessage'' then process_like_message D msg s
      else if msg_method msg = ''WebcastSocialMessage'' then process_follow_message D now msg s
      else if msg_method msg = ''WebcastRoomUserSeqMessage'' then process_viewer_count D msg s
      else s)"

text \<open>
  \<open>for msg in response.messages_list: self._process_message(msg)\<close>; \<open>clk i\<close> is the clock
  reading while the \<open>i\<close>-th sub-message is handled.
\<close>

fun process_messages :: "codec \<Rightarrow> (nat \<Rightarrow> int) \<Rightarrow> message list \<Rightarrow> crawler \<Rightarrow> crawler" where
  "process_messages D clk [] s = s"
| "process_messages D clk (m # ms) s =
     process_messages D (\<lambda>i. clk (Suc i)) ms (process_message D (clk 0) m s)"


section \<open>Frame codec: \<open>_on_message\<close>\<close>

text \<open>
  The \<open>except\<close> branch of \<open>_on_message\<close>: an error line and a debug line with the first 50
  bytes of the inbound message.
\<close>

definition on_message_failed :: "bytes \<Rightarrow> crawler \<Rightarrow> crawler" where
  "on_message_failed message s = logger (DebugOnMessage (take 50 message)) (logger ErrorOnMessage s)"

definition ack_frame :: "codec \<Rightarrow> push_frame \<Rightarrow> response \<Rightarrow> bytes" where
  "ack_frame D package resp =
     serialize_push_frame D
       \<lparr>log_id = log_id package, payload_type = ''ack'',
        frame_payload = encode_utf8 D (internal_ext resp)\<rparr>"

text \<open>
  \<open>WsSend b ok\<close> is the call \<open>ws.send(b, OPCODE_BINARY)\<close>; \<open>ok\<close> is false when the call
  raises, which \<open>send_ok\<close> decides from outside. A raising send ends the handler in its
  \<open>except\<close> branch, before the loop over the sub-messages.
\<close>

definition on_message :: "codec \<Rightarrow> bool \<Rightarrow> (nat \<Rightarrow> int) \<Rightarrow> bytes \<Rightarrow> crawler \<Rightarrow> crawler" where
  "on_message D send_ok clk message s =
     (case parse_push_frame D message of
        None \<Rightarrow> on_message_failed message s
      | Some package \<Rightarrow>
          (case gzip_decompress D (frame_payload package) of
             None \<Rightarrow> on_message_failed message s
           | Some compressed_data \<Rightarrow>
               (case parse_response D compressed_data of
                  None \<Rightarrow> on_message_failed message s
                | Some resp \<Rightarrow>
                    if need_ack resp then
                      let s1 = emit (WsSend (ack_frame D package resp) send_ok) s
                      in if send_ok then process_messages D clk (messages_list resp) s1
                         else on_message_failed message s1
                    else process_messages D clk (messages_list resp) s)))"

section \<open>Snapshot writer: \<open>_save_data\<close>\<close>

text \<open>
  \<open>list(c)\<close>: the iteration order of a Python set is not fixed by the language, so it is
  the parameter \<open>to_list\<close>.
\<close>

fun py_list :: "(string fset \<Rightarrow> string list) \<Rightarrow> pycoll \<Rightarrow> string list" where
  "py_list to_list (PySet S) = to_list S"
| "py_list to_list (PyList xs) = xs"

text \<open>
  The loop over \<open>data_copy["gifts"].items()\<close>. \<open>self.data.copy()\<close> is a shallow copy: the
  \<open>gifts\<close> dict and its inner dicts are the objects of \<open>self.data\<close>, so the assignment
  \<open>gift_data["senders"] = list(...)\<close> is a write to the live aggregate.
\<close>

definition listify_senders :: "(string fset \<Rightarrow> string list) \<Rightarrow> gift_stat \<Rightarrow> gift_stat" where
  "listify_senders to_list gift_data =
     (if is_set (senders gift_data)
      then gift_data\<lparr>senders := PyList (py_list to_list (senders gift_data))\<rparr>
      else gift_data)"

definition snapshot_name :: "string \<Rightarrow> int \<Rightarrow> string \<Rightarrow> string" where
  "snapshot_name lid n day = lid @ ''_'' @ str_int n @ ''_'' @ day @ ''.json''"

definition data_dir :: string where
  "data_dir = ''data/live_data''"

text \<open>
  \<open>fs_ok\<close> is false when \<open>open\<close> or \<open>json.dump\<close> raises; \<open>now\<close> is \<open>datetime.now()\<close>.
  \<open>data_copy["members"] = list(...)\<close> rebinds a key of the copy only.
\<close>

definition save_data :: "(string fset \<Rightarrow> string list) \<Rightarrow> bool \<Rightarrow> int \<Rightarrow> crawler \<Rightarrow> crawler" where
  "save_data to_list fs_ok now s =
     (let members_list = PyList (py_list to_list (members (data s)));
          s1 = s\<lparr>data := (data s)\<lparr>gifts :=
                 map (\<lambda>(gift_name, gift_data). (gift_name, listify_senders to_list gift_data))
                   (gifts (data s))\<rparr>\<rparr>;
          data_copy = (data s1)\<lparr>members := members_list\<rparr>;
          st = \<lparr>total_chat_messages = length (chat_messages data_copy),
                total_members = py_len (members data_copy),
                total_follows = length (follows data_copy),
                total_gift_types = length (gifts data_copy),
                save_time = now\<rparr>;
          filepath = data_dir @ ''/'' @ snapshot_name (live_id s) (session_count s) (today s)
      in if fs_ok
         then logger (InfoSaved filepath)
                (emit (FileWrite filepath \<lparr>snap_data = data_copy, snap_stats = st\<rparr>) s1)
         else logger ErrorSave s1)"

section \<open>Session bootstrap\<close>

subsection \<open>\<open>_get_next_session_count\<close>\<close>

text \<open>
  \<open>glob.glob\<close> with the pattern \<open>{live_id}_*_*.json\<close> inside the data directory. The
  directory is the list of the file names in it. A pattern is a list of literal
  characters and stars; the characters of \<open>live_id\<close> are taken as literals (a live id
  holding \<open>*\<close>, \<open>?\<close> or \<open>[\<close> is outside this model).
\<close>

datatype tok = Lit char | Star

fun wild :: "tok list \<Rightarrow> string \<Rightarrow> bool" where
  "wild [] s = (s = [])"
| "wild (Lit c # ps) [] = False"
| "wild (Lit c # ps) (x # xs) = (x = c \<and> wild ps xs)"
| "wild (Star # ps) [] = wild ps []"
| "wild (Star # ps) (x # xs) = (wild ps (x # xs) \<or> wild (Star # ps) xs)"

definition session_pattern :: "string \<Rightarrow> tok list" where
  "session_pattern lid =
     map Lit lid @ [Lit (CHR ''_''), Star, Lit (CHR ''_''), Star] @ map Lit ''.json''"

text \<open>\<open>s.split(c)\<close>\<close>

fun split_on :: "char \<Rightarrow> string \<Rightarrow> string list" where
  "split_on c [] = [[]]"
| "split_on c (x # xs) =
     (if x = c then [] # split_on c xs
      else (case split_on c xs of [] \<Rightarrow> [[x]] | y # ys \<Rightarrow> (x # y) # ys))"

text \<open>\<open>xs[1]\<close>, \<open>None\<close> for IndexError\<close>

fun second :: "'a list \<Rightarrow> 'a option" where
  "second (x # y # zs) = Some y"
| "second xs = None"

text \<open>
  \<open>int(s)\<close> on a text without underscores (it is a field of \<open>split("_")\<close>): surrounding
  white space is dropped, one sign is allowed, then decimal digits; \<open>None\<close> for ValueError.
\<close>

definition is_digit :: "char \<Rightarrow> bool" where
  "is_digit c = (48 \<le> (of_char c :: nat) \<and> (of_char c :: nat) \<le> 57)"

definition is_space :: "char \<Rightarrow> bool" where
  "is_space c = ((of_char c :: nat) \<in> {9, 10, 11, 12, 13, 28, 29, 30, 31, 32})"

definition digit_value :: "char \<Rightarrow> nat" where
  "digit_value c = of_char c - 48"

definition digits_value :: "string \<Rightarrow> nat option" where
  "digits_value ds =
     (if ds \<noteq> [] \<and> list_all is_digit ds
      then Some (foldl (\<lambda>a c. 10 * a + digit_value c) 0 ds) else None)"

definition strip :: "string \<Rightarrow> string" where
  "strip s = rev (dropWhile is_space (rev (dropWhile is_space s)))"

definition py_int :: "string \<Rightarrow> int option" where
  "py_int s =
     (case strip s of
        [] \<Rightarrow> None
      | c # r \<Rightarrow>
          if c = CHR ''-'' then map_option (\<lambda>n. - int n) (digits_value r)
          else if c = CHR ''+'' then map_option int (digits_value r)
          else map_option int (digits_value (c # r)))"

text \<open>
  The body of the \<open>for\<close> loop: \<open>ValueError\<close> and \<open>IndexError\<close> skip the file.
\<close>

definition session_step :: "int \<Rightarrow> string \<Rightarrow> int" where
  "session_step max_count file =
     (case second (split_on (CHR ''_'') file) of
        None \<Rightarrow> max_count
      | Some field \<Rightarrow>
          (case py_int field of
             None \<Rightarrow> max_count
           | Some c \<Rightarrow> max max_count c))"

definition get_next_session_count :: "string list \<Rightarrow> string \<Rightarrow> int" where
  "get_next_session_count dir lid =
     (let files = filter (wild (session_pattern lid)) dir
      in foldl session_step 0 files + 1)"

subsection \<open>\<open>__init__\<close>\<close>

definition init :: "string list \<Rightarrow> string \<Rightarrow> string \<Rightarrow> crawler" where
  "init dir lid day =
     (let n = get_next_session_count dir lid
      in \<lparr>live_id = lid, today = day, session_count = n,
          data = \<lparr>d_live_id = lid, d_date = day, d_session = n, d_user_id = [],
                  d_nickname = [], total_viewers = 0, total_likes = 0, chat_messages = [],
                  gifts = [], members = PySet {||}, follows = []\<rparr>,
          cache_members = {||}, cache_gifts = {||},
          is_running = True, auto_save_running = False, is_live = True,
          ttwid_cache = None, room_id_cache = None, trace = []\<rparr>)"

subsection \<open>The \<open>ttwid\<close> and \<open>room_id\<close> properties\<close>

text \<open>
  A \<open>requests.get\<close> followed by \<open>raise_for_status\<close> either raises (\<open>None\<close>) or gives a
  response, of which the page text and the \<open>ttwid\<close> cookie are read.
\<close>

record http_response =
  response_text :: string
  cookie_ttwid :: "string option"

text \<open>Python truth of an attribute that is \<open>None\<close> or a string.\<close>

fun truthy :: "string option \<Rightarrow> bool" where
  "truthy None = False"
| "truthy (Some v) = (v \<noteq> [])"

definition ttwid :: "http_response option \<Rightarrow> crawler \<Rightarrow> string option \<times> crawler" where
  "ttwid home s =
     (if truthy (ttwid_cache s) then (ttwid_cache s, s)
      else (case home of
              None \<Rightarrow> (None, logger ErrorHomePage s)
            | Some r \<Rightarrow> (cookie_ttwid r, s\<lparr>ttwid_cache := cookie_ttwid r\<rparr>)))"

text \<open>
  \<open>re.search(r'roomId\\":\\"(\d+)\\"', text)\<close>: the literal \<open>roomId\":\"\<close>, a non-empty
  run of digits, the literal \<open>\"\<close>; the leftmost match wins. The digit run is followed by
  a backslash, so it is the longest run of digits at that place.
\<close>

definition room_id_prefix :: string where
  "room_id_prefix = ''roomId'' @ [CHR 0x5C, CHR 0x22, CHR '':'', CHR 0x5C, CHR 0x22]"

definition room_id_suffix :: string where
  "room_id_suffix = [CHR 0x5C, CHR 0x22]"

definition match_room_id_here :: "string \<Rightarrow> string option" where
  "match_room_id_here s =
     (if take (length room_id_prefix) s = room_id_prefix then
        let r = drop (length room_id_prefix) s;
            ds = takeWhile is_digit r;
            rest = dropWhile is_digit r
        in if ds \<noteq> [] \<and> take (length room_id_suffix) rest = room_id_suffix
           then Some ds else None
      else None)"

fun search_room_id :: "string \<Rightarrow> string option" where
  "search_room_id [] = match_room_id_here []"
| "search_room_id (c # cs) =
     (case match_room_id_here (c # cs) of
        Some ds \<Rightarrow> Some ds
      | None \<Rightarrow> search_room_id cs)"

text \<open>
  The \<open>room_id\<close> property. Building the request headers reads \<open>self.ttwid\<close>. A failed GET
  logs and falls off the end of the function, which returns \<open>None\<close> and assigns nothing.
\<close>

definition room_id ::
  "http_response option \<Rightarrow> http_response option \<Rightarrow> crawler \<Rightarrow> string option \<times> crawler" where
  "room_id home page s =
     (if truthy (room_id_cache s) then (room_id_cache s, s)
      else
        let s1 = snd (ttwid home s)
        in (case page of
              None \<Rightarrow> (None, logger ErrorRoomPage s1)
            | Some r \<Rightarrow>
                (case search_room_id (response_text r) of
                   None \<Rightarrow>
                     let s2 = (logger WarnNoRoomId s1)\<lparr>room_id_cache := Some (live_id s1),
                                                         is_live := False\<rparr>
                     in (room_id_cache s2, s2)
                 | Some ds \<Rightarrow>
                     let s2 = s1\<lparr>room_id_cache := Some ds\<rparr>
                     in (room_id_cache s2, s2))))"

subsection \<open>\<open>stop\<close>\<close>

text \<open>
  \<open>ws\<close> is \<open>None\<close> when \<open>self.ws\<close> is unset, and otherwise tells whether \<open>close()\<close>
  returned.
\<close>

definition stop ::
  "(string fset \<Rightarrow> string list) \<Rightarrow> bool option \<Rightarrow> bool \<Rightarrow> int \<Rightarrow> crawler \<Rightarrow> crawler" where
  "stop to_list ws fs_ok now s =
     (let s1 = (logger InfoStopping s)\<lparr>is_running := False, auto_save_running := False\<rparr>;
          s2 = (case ws of
                  None \<Rightarrow> s1
                | Some ok \<Rightarrow> if ok then emit (WsClose True) s1
                             else logger WarnClose (emit (WsClose False) s1))
      in logger InfoStopped (save_data to_list fs_ok now s2))"

section \<open>A session as a sequence of operations\<close>

text \<open>
  The calls that touch the object after \<open>__init__\<close>: a frame arriving, one sub-message
  being dispatched, a snapshot write, a read of \<open>room_id\<close>, and \<open>stop\<close>.
\<close>

datatype op =
    OnMessage bool "nat \<Rightarrow> int" bytes
  | ProcessMessage int message
  | SaveData bool int
  | RoomId "http_response option" "http_response option"
  | Stop "bool option" bool int

fun step :: "codec \<Rightarrow> (string fset \<Rightarrow> string list) \<Rightarrow> crawler \<Rightarrow> op \<Rightarrow> crawler" where
  "step D to_list s (OnMessage send_ok clk message) = on_message D send_ok clk message s"
| "step D to_list s (ProcessMessage now msg) = process_message D now msg s"
| "step D to_list s (SaveData fs_ok now) = save_data to_list fs_ok now s"
| "step D to_list s (RoomId home page) = snd (room_id home page s)"
| "step D to_list s (Stop ws fs_ok now) = stop to_list ws fs_ok now s"

definition run :: "codec \<Rightarrow> (string fset \<Rightarrow> string list) \<Rightarrow> op list \<Rightarrow> crawler \<Rightarrow> crawler" where
  "run D to_list ops s = foldl (step D to_list) s ops"

section \<open>Connection manager: \<open>_connectWebSocket\<close>\<close>

text \<open>
  One pass through the \<open>try\<close> block ends in one of three ways: \<open>generateSignature\<close> gave
  \<open>None\<close> or an empty text (\<open>return\<close>); some call raised (\<open>except\<close>); or \<open>run_forever\<close>
  returned (\<open>break\<close>). \<open>attempt i\<close> tells how the \<open>i\<close>-th pass ends and \<open>running i\<close> what
  \<open>self.is_running\<close> holds when the loop condition is tested before it.
\<close>

datatype attempt_outcome = SignatureFailed | Raised | RanForever

datatype connect_event =
    Attempt nat
  | LogSignatureFailed
  | LogConnecting
  | LogRetry nat
  | Sleep nat
  | LogGiveUp

datatype connect_exit = Returned | LoopEnded | Broke

record connect_result =
  events :: "connect_event list"
  retry_count :: nat
  exit :: connect_exit

definition max_retries :: nat where
  "max_retries = 3"

definition retry_delay :: nat where
  "retry_delay = 3"

function connect_loop ::
  "(nat \<Rightarrow> bool) \<Rightarrow> (nat \<Rightarrow> attempt_outcome) \<Rightarrow> nat \<Rightarrow> nat \<Rightarrow> connect_event list
     \<Rightarrow> connect_result" where
  "connect_loop running attempt i rc evs =
     (if running i \<and> rc < max_retries then
        (case attempt i of
           SignatureFailed \<Rightarrow>
             \<lparr>events = evs @ [Attempt i, LogSignatureFailed], retry_count = rc, exit = Returned\<rparr>
         | RanForever \<Rightarrow>
             \<lparr>events = evs @ [Attempt i, LogConnecting], retry_count = rc, exit = Broke\<rparr>
         | Raised \<Rightarrow>
             if rc + 1 < max_retries
             then connect_loop running attempt (i + 1) (rc + 1)
                    (evs @ [Attempt i, LogRetry (rc + 1), Sleep retry_delay])
             else \<lparr>events = evs @ [Attempt i, LogRetry (rc + 1), LogGiveUp],
                   retry_count = rc + 1, exit = Broke\<rparr>)
      else \<lparr>events = evs, retry_count = rc, exit = LoopEnded\<rparr>)"
  by pat_completeness auto
termination
  by (relation "measure (\<lambda>(running, attempt, i, rc, evs). max_retries - rc)") auto

declare connect_loop.simps [simp del]

definition connectWebSocket :: "(nat \<Rightarrow> bool) \<Rightarrow> (nat \<Rightarrow> attempt_outcome) \<Rightarrow> connect_result" where
  "connectWebSocket running attempt = connect_loop running attempt 0 0 []"


section \<open>Notions used in the statements\<close>

text \<open>The GiftStat for a gift name: the inner dict, or the one an upsert starts from.\<close>

definition stat_of :: "crawler \<Rightarrow> string \<Rightarrow> gift_stat" where
  "stat_of s g = (case map_of (gifts (data s)) g of None \<Rightarrow> new_gift_stat | Some st \<Rightarrow> st)"

text \<open>The six method tags of the dispatcher.\<close>

definition known_method :: "message \<Rightarrow> bool" where
  "known_method m =
     (msg_method m \<in> {''WebcastChatMessage'', ''WebcastGiftMessage'', ''WebcastMemberMessage'',
                   ''WebcastLikeMessage'', ''WebcastSocialMessage'', ''WebcastRoomUserSeqMessage''})"

text \<open>A malformed sub-message: the decoder chosen by its method tag raises on its payload.\<close>

definition decode_fails :: "codec \<Rightarrow> message \<Rightarrow> bool" where
  "decode_fails D m =
     (if msg_method m = ''WebcastChatMessage'' then parse_chat D (payload m) = None
      else if msg_method m = ''WebcastGiftMessage'' then parse_gift D (payload m) = None
      else if msg_method m = ''WebcastMemberMessage'' then parse_member D (payload m) = None
      else if msg_method m = ''WebcastLikeMessage'' then parse_like D (payload m) = None
      else if msg_method m = ''WebcastSocialMessage'' then parse_social D (payload m) = None
      else if msg_method m = ''WebcastRoomUserSeqMessage'' then parse_room_user_seq D (payload m) = None
      else False)"

text \<open>The error line a handler writes for a sub-message it cannot decode.\<close>

definition decode_error :: "message \<Rightarrow> log_entry" where
  "decode_error m =
     (if msg_method m = ''WebcastChatMessage'' then ErrorChat
      else if msg_method m = ''WebcastGiftMessage'' then ErrorGift
      else if msg_method m = ''WebcastMemberMessage'' then ErrorMember
      else if msg_method m = ''WebcastLikeMessage'' then ErrorLike
      else if msg_method m = ''WebcastSocialMessage'' then ErrorFollow
      else ErrorViewerCount)"

fun is_send :: "effect \<Rightarrow> bool" where
  "is_send (WsSend b ok) = True"
| "is_send e = False"

fun is_attempt :: "connect_event \<Rightarrow> bool" where
  "is_attempt (Attempt i) = True"
| "is_attempt e = False"

subsection \<open>A small codec for concrete runs\<close>

text \<open>
  A toy wire format, used only to run the model on concrete inputs: the first octet of a
  payload is the number it carries, an empty payload does not decode.
\<close>

definition demo_user :: "8 word \<Rightarrow> user" where
  "demo_user b = \<lparr>user_id = uint b, nick_name = (if b < 128 then ''ann'' else ''bob'')\<rparr>"

definition demo_codec :: codec where
  "demo_codec =
     \<lparr>parse_push_frame =
        (\<lambda>b. case b of [] \<Rightarrow> None
              | x # r \<Rightarrow> Some \<lparr>log_id = uint x, payload_type = ''msg'', frame_payload = r\<rparr>),
      gzip_decompress = (\<lambda>b. case b of [] \<Rightarrow> None | x # r \<Rightarrow> Some r),
      parse_response =
        (\<lambda>b. case b of [] \<Rightarrow> None
              | x # r \<Rightarrow> Some \<lparr>messages_list = [\<lparr>msg_method = ''WebcastChatMessage'', payload = r\<rparr>],
                               need_ack = (x \<noteq> 0), internal_ext = ''ext''\<rparr>),
      parse_chat =
        (\<lambda>b. case b of [] \<Rightarrow> None
              | x # r \<Rightarrow> Some \<lparr>chat_user = demo_user x, content = ''hello''\<rparr>),
      parse_gift =
        (\<lambda>b. case b of [] \<Rightarrow> None
              | x # r \<Rightarrow> Some \<lparr>gift_user = demo_user x,
                               gift = \<lparr>name = ''rose'', diamond_count = 5\<rparr>,
                               repeat_count = uint x\<rparr>),
      parse_member =
        (\<lambda>b. case b of [] \<Rightarrow> None | x # r \<Rightarrow> Some \<lparr>member_user = demo_user x\<rparr>),
      parse_like =
        (\<lambda>b. case b of [] \<Rightarrow> None | x # r \<Rightarrow> Some \<lparr>like_count = uint x\<rparr>),
      parse_social =
        (\<lambda>b. case b of [] \<Rightarrow> None | x # r \<Rightarrow> Some \<lparr>social_user = demo_user x\<rparr>),
      parse_room_user_seq =
        (\<lambda>b. case b of [] \<Rightarrow> None | x # r \<Rightarrow> Some \<lparr>total_user = uint x\<rparr>),
      serialize_push_frame = (\<lambda>f. word_of_int (log_id f) # frame_payload f),
      encode_utf8 = map of_char\<rparr>"

definition demo_crawler :: crawler where
  "demo_crawler = init [] ''X'' ''2024-01-01''"

text \<open>
  The members set never holds more entries than the dedup set \<open>message_cache["members"]\<close>.
\<close>

definition members_bounded :: "crawler \<Rightarrow> bool" where
  "members_bounded s = (fcard (elems (members (data s))) \<le> fcard (cache_members s))"

text \<open>Oracles for concrete runs of the connection loop.\<close>

definition keeps_running :: "nat \<Rightarrow> bool" where
  "keeps_running i = True"

definition signature_fails_first :: "nat \<Rightarrow> attempt_outcome" where
  "signature_fails_first i = (if i = 0 then SignatureFailed else RanForever)"

definition always_raises :: "nat \<Rightarrow> attempt_outcome" where
  "always_raises i = Raised"

definition raises_then_signature_fails :: "nat \<Rightarrow> attempt_outcome" where
  "raises_then_signature_fails i = (if i = 0 then Raised else SignatureFailed)"

text \<open>What one failed attempt that is retried leaves in the event list.\<close>

definition retry_events :: "nat \<Rightarrow> connect_event list" where
  "retry_events j = [Attempt j, LogRetry (Suc j), Sleep retry_delay]"


text \<open>A concrete iteration order for \<open>list(set)\<close>, pages, and an aggregate with one gift.\<close>

definition demo_order :: "string fset \<Rightarrow> string list" where
  "demo_order = sorted_list_of_fset"

definition demo_page_offline :: http_response where
  "demo_page_offline = \<lparr>response_text = ''<html>offline</html>'', cookie_ttwid = None\<rparr>"

definition demo_home :: http_response where
  "demo_home = \<lparr>response_text = ''<html></html>'', cookie_ttwid = Some ''tt''\<rparr>"

text \<open>The crawler after user 1, nickname \<open>ann\<close>, has entered.\<close>

definition demo_entered :: crawler where
  "demo_entered = process_message demo_codec 0
     \<lparr>msg_method = ''WebcastMemberMessage'', payload = [1]\<rparr> demo_crawler"

definition demo_gifted :: crawler where
  "demo_gifted = process_message demo_codec 0
     \<lparr>msg_method = ''WebcastGiftMessage'', payload = [3]\<rparr> demo_crawler"


text \<open>
  The ordinal the loop of \<open>_get_next_session_count\<close> reads off one file name, if any.
\<close>

definition ordinal_of :: "string \<Rightarrow> int option" where
  "ordinal_of file =
     (case second (split_on (CHR ''_'') file) of None \<Rightarrow> None | Some field \<Rightarrow> py_int field)"


section \<open>Which fields each operation touches\<close>

lemma emit_fields [simp]:
  "data (emit e s) = data s" "cache_members (emit e s) = cache_members s"
  "cache_gifts (emit e s) = cache_gifts s" "session_count (emit e s) = session_count s"
  "live_id (emit e s) = live_id s" "today (emit e s) = today s"
  "is_live (emit e s) = is_live s" "room_id_cache (emit e s) = room_id_cache s"
  "ttwid_cache (emit e s) = ttwid_cache s" "is_running (emit e s) = is_running s"
  "auto_save_running (emit e s) = auto_save_running s"
  "trace (emit e s) = trace s @ [e]"
  by (simp_all add: emit_def)

lemma logger_fields [simp]:
  "data (logger l s) = data s" "cache_members (logger l s) = cache_members s"
  "cache_gifts (logger l s) = cache_gifts s" "session_count (logger l s) = session_count s"
  "live_id (logger l s) = live_id s" "today (logger l s) = today s"
  "is_live (logger l s) = is_live s" "room_id_cache (logger l s) = room_id_cache s"
  "ttwid_cache (logger l s) = ttwid_cache s" "is_running (logger l s) = is_running s"
  "auto_save_running (logger l s) = auto_save_running s"
  "trace (logger l s) = trace s @ [Log l]"
  by (simp_all add: logger_def)

lemma process_messages_append:
  "process_messages D clk (xs @ ys) s =
     process_messages D (\<lambda>i. clk (length xs + i)) ys (process_messages D clk xs s)"
  by (induction xs arbitrary: clk s) simp_all

lemma py_add_ensure_set [simp]: "py_add x (ensure_set c) = Some (PySet (finsert x (elems c)))"
  by (cases c) simp_all

lemma elems_ensure_set [simp]: "elems (ensure_set c) = elems c"
  by (cases c) simp_all

lemma process_gift_message_stat:
  assumes "parse_gift D (payload m) = Some e"
  shows "map_of (gifts (data (process_gift_message D m s))) g =
           (if g = name (gift e)
            then Some \<lparr>count = count (stat_of s g) + repeat_count e,
                       total_value = total_value (stat_of s g) + diamond_count (gift e) * repeat_count e,
                       senders = PySet (finsert (nick_name (gift_user e)) (elems (senders (stat_of s g))))\<rparr>
            else map_of (gifts (data s)) g)"
  using assms
  by (cases "map_of (gifts (data s)) (name (gift e))")
    (simp_all add: process_gift_message_def Let_def map_of_map_entry update_conv' stat_of_def new_gift_stat_def)

lemma gift_events_stat:
  assumes "\<forall>m\<in>set msgs. msg_method m = ''WebcastGiftMessage''"
    and "map (\<lambda>m. parse_gift D (payload m)) msgs = map Some evs"
    and "\<forall>e\<in>set evs. name (gift e) = g"
  shows "map_of (gifts (data (process_messages D clk msgs s))) g =
           (if evs = [] then map_of (gifts (data s)) g
            else Some \<lparr>count = count (stat_of s g) + (\<Sum>e\<leftarrow>evs. repeat_count e),
                       total_value = total_value (stat_of s g)
                         + (\<Sum>e\<leftarrow>evs. diamond_count (gift e) * repeat_count e),
                       senders = PySet (elems (senders (stat_of s g))
                         |\<union>| fset_of_list (map (\<lambda>e. nick_name (gift_user e)) evs))\<rparr>)"
  using assms
proof (induction msgs arbitrary: evs rule: rev_induct)
  case Nil
  then show ?case by simp
next
  case (snoc m ms)
  from snoc.prems(2) obtain es e where evs: "evs = es @ [e]"
    and es: "map (\<lambda>m. parse_gift D (payload m)) ms = map Some es"
    and e: "parse_gift D (payload m) = Some e"
    by (cases evs rule: rev_cases) auto
  from snoc.prems(1) have tag: "msg_method m = ''WebcastGiftMessage''"
    and tags: "\<forall>m\<in>set ms. msg_method m = ''WebcastGiftMessage''" by simp_all
  from snoc.prems(3) evs have g: "name (gift e) = g" and gs: "\<forall>e\<in>set es. name (gift e) = g"
    by simp_all
  let ?P = "process_messages D clk ms s"
  have prev: "stat_of ?P g =
      (if es = [] then stat_of s g
       else \<lparr>count = count (stat_of s g) + (\<Sum>e\<leftarrow>es. repeat_count e),
             total_value = total_value (stat_of s g)
               + (\<Sum>e\<leftarrow>es. diamond_count (gift e) * repeat_count e),
             senders = PySet (elems (senders (stat_of s g))
               |\<union>| fset_of_list (map (\<lambda>e. nick_name (gift_user e)) es))\<rparr>)"
    using snoc.IH [OF tags es gs] by (simp add: stat_of_def)
  have "process_messages D clk (ms @ [m]) s = process_gift_message D m ?P"
    by (simp add: process_messages_append process_message_def tag)
  then show ?case
    using process_gift_message_stat [OF e, of ?P g] g prev
    by (auto simp add: evs)
qed

lemma chat_frame [simp]:
  "cache_members (process_chat_message D now m s) = cache_members s"
  "members (data (process_chat_message D now m s)) = members (data s)"
  "session_count (process_chat_message D now m s) = session_count s"
  "gifts (data (process_chat_message D now m s)) = gifts (data s)"
  by (simp_all add: process_chat_message_def Let_def split: option.splits)

lemma gift_frame [simp]:
  "cache_members (process_gift_message D m s) = cache_members s"
  "members (data (process_gift_message D m s)) = members (data s)"
  "session_count (process_gift_message D m s) = session_count s"
  by (simp_all add: process_gift_message_def Let_def split: option.splits)

lemma like_frame [simp]:
  "cache_members (process_like_message D m s) = cache_members s"
  "members (data (process_like_message D m s)) = members (data s)"
  "session_count (process_like_message D m s) = session_count s"
  "gifts (data (process_like_message D m s)) = gifts (data s)"
  by (simp_all add: process_like_message_def Let_def split: option.splits)

lemma follow_frame [simp]:
  "cache_members (process_follow_message D now m s) = cache_members s"
  "members (data (process_follow_message D now m s)) = members (data s)"
  "session_count (process_follow_message D now m s) = session_count s"
  "gifts (data (process_follow_message D now m s)) = gifts (data s)"
  by (simp_all add: process_follow_message_def Let_def split: option.splits)

lemma viewer_frame [simp]:
  "cache_members (process_viewer_count D m s) = cache_members s"
  "members (data (process_viewer_count D m s)) = members (data s)"
  "session_count (process_viewer_count D m s) = session_count s"
  "gifts (data (process_viewer_count D m s)) = gifts (data s)"
  by (simp_all add: process_viewer_count_def split: option.splits)

lemma member_frame [simp]:
  "session_count (process_member_message D m s) = session_count s"
  "gifts (data (process_member_message D m s)) = gifts (data s)"
  by (simp_all add: process_member_message_def Let_def split: option.splits)

lemma member_seen:
  assumes "parse_member D (payload m) = Some e"
    and "str_int (user_id (member_user e)) |\<in>| cache_members s"
  shows "process_member_message D m s = s"
  using assms by (simp add: process_member_message_def)

lemma member_first:
  assumes "parse_member D (payload m) = Some e"
    and "str_int (user_id (member_user e)) |\<notin>| cache_members s"
  shows "process_member_message D m s =
           logger (InfoEntered (nick_name (member_user e)))
             (s\<lparr>cache_members := finsert (str_int (user_id (member_user e))) (cache_members s),
                data := (data s)\<lparr>members :=
                  PySet (finsert (nick_name (member_user e)) (elems (members (data s))))\<rparr>\<rparr>)"
  using assms by (cases "members (data s)") (simp_all add: process_member_message_def Let_def)

lemma member_cases:
  "process_member_message D m s = logger ErrorMember s
   \<or> process_member_message D m s = s
   \<or> (\<exists>k n. k |\<notin>| cache_members s \<and>
        cache_members (process_member_message D m s) = finsert k (cache_members s) \<and>
        members (data (process_member_message D m s)) = PySet (finsert n (elems (members (data s)))))"
proof (cases "parse_member D (payload m)")
  case None
  then show ?thesis by (simp add: process_member_message_def)
next
  case (Some e)
  show ?thesis
  proof (cases "str_int (user_id (member_user e)) |\<in>| cache_members s")
    case True
    then show ?thesis using member_seen [OF Some] by simp
  next
    case False
    then show ?thesis using member_first [OF Some False] by auto
  qed
qed


lemma process_message_cache_mono:
  "cache_members s |\<subseteq>| cache_members (process_message D now m s)"
  using member_cases [of D m s]
  by (auto simp add: process_message_def)

lemma process_message_bounded:
  assumes "members_bounded s"
  shows "members_bounded (process_message D now m s)"
proof -
  have "members_bounded (process_member_message D m s)"
    using member_cases [of D m s] assms
    apply (auto simp add: members_bounded_def)
    subgoal for k n
      using fcard_finsert_le fcard_finsert_disjoint [of k "cache_members s"]
      by (metis fcard_finsert_if le_SucI not_less_eq_eq)
    done
  then show ?thesis using assms
    by (simp add: process_message_def members_bounded_def)
qed

lemma process_message_session [simp]:
  "session_count (process_message D now m s) = session_count s"
  by (simp add: process_message_def)

lemma process_messages_session [simp]:
  "session_count (process_messages D clk ms s) = session_count s"
  by (induction ms arbitrary: clk s) simp_all

lemma process_messages_cache_mono:
  "cache_members s |\<subseteq>| cache_members (process_messages D clk ms s)"
proof (induction ms arbitrary: clk s)
  case Nil
  then show ?case by simp
next
  case (Cons m ms)
  show ?case
    using process_message_cache_mono [of s D "clk 0" m]
      Cons.IH [of "process_message D (clk 0) m s" "\<lambda>i. clk (Suc i)"]
    by auto
qed

lemma process_messages_bounded:
  "members_bounded s \<Longrightarrow> members_bounded (process_messages D clk ms s)"
  by (induction ms arbitrary: clk s) (simp_all add: process_message_bounded)

lemma on_message_failed_frame [simp]:
  "data (on_message_failed b s) = data s"
  "cache_members (on_message_failed b s) = cache_members s"
  "session_count (on_message_failed b s) = session_count s"
  by (simp_all add: on_message_failed_def)

lemma members_bounded_cong:
  "members (data s') = members (data s) \<Longrightarrow> cache_members s' = cache_members s \<Longrightarrow>
   members_bounded s' = members_bounded s"
  by (simp add: members_bounded_def)

lemma on_message_cases:
  "\<exists>s'. cache_members s' = cache_members s \<and> data s' = data s
         \<and> session_count s' = session_count s \<and>
        (on_message D send_ok clk b s = on_message_failed b s'
         \<or> (\<exists>ms. on_message D send_ok clk b s = process_messages D clk ms s'))"
proof -
  have k: "\<exists>s'. cache_members s' = cache_members s \<and> data s' = data s
         \<and> session_count s' = session_count s \<and> (r = on_message_failed b s'
         \<or> (\<exists>ms. r = process_messages D clk ms s'))"
    if "r = on_message_failed b s \<or> r = on_message_failed b (emit e s)
        \<or> r = process_messages D clk ms s \<or> r = process_messages D clk ms (emit e s)"
    for r e ms
  proof -
    have "cache_members (emit e s) = cache_members s \<and> data (emit e s) = data s
          \<and> session_count (emit e s) = session_count s" by simp
    then show ?thesis using that by blast
  qed
  show ?thesis
  proof (cases "parse_push_frame D b")
    case None
    then show ?thesis by (intro k) (simp add: on_message_def)
  next
    case pkg: (Some package)
    show ?thesis
    proof (cases "gzip_decompress D (frame_payload package)")
      case None
      then show ?thesis using pkg by (intro k) (simp add: on_message_def)
    next
      case gz: (Some raw)
      show ?thesis
      proof (cases "parse_response D raw")
        case None
        then show ?thesis using pkg gz by (intro k) (simp add: on_message_def)
      next
        case (Some resp)
        have "on_message D send_ok clk b s = on_message_failed b s
              \<or> on_message D send_ok clk b s
                   = on_message_failed b (emit (WsSend (ack_frame D package resp) send_ok) s)
              \<or> on_message D send_ok clk b s = process_messages D clk (messages_list resp) s
              \<or> on_message D send_ok clk b s
                   = process_messages D clk (messages_list resp)
                       (emit (WsSend (ack_frame D package resp) send_ok) s)"
          using pkg gz Some by (simp add: on_message_def Let_def)
        then show ?thesis by (rule k)
      qed
    qed
  qed
qed

lemma on_message_session [simp]:
  "session_count (on_message D send_ok clk b s) = session_count s"
proof -
  obtain s' where "session_count s' = session_count s"
    and "on_message D send_ok clk b s = on_message_failed b s'
         \<or> (\<exists>ms. on_message D send_ok clk b s = process_messages D clk ms s')"
    using on_message_cases [of s D send_ok clk b] by blast
  then show ?thesis by auto
qed

lemma on_message_cache_mono:
  "cache_members s |\<subseteq>| cache_members (on_message D send_ok clk b s)"
proof -
  obtain s' where s': "cache_members s' = cache_members s"
    and r: "on_message D send_ok clk b s = on_message_failed b s'
         \<or> (\<exists>ms. on_message D send_ok clk b s = process_messages D clk ms s')"
    using on_message_cases [of s D send_ok clk b] by blast
  from r show ?thesis
  proof
    assume "on_message D send_ok clk b s = on_message_failed b s'"
    then show ?thesis using s' by simp
  next
    assume "\<exists>ms. on_message D send_ok clk b s = process_messages D clk ms s'"
    then obtain ms where "on_message D send_ok clk b s = process_messages D clk ms s'" ..
    then show ?thesis using process_messages_cache_mono [of s' D clk ms] s' by simp
  qed
qed

lemma on_message_bounded:
  assumes "members_bounded s"
  shows "members_bounded (on_message D send_ok clk b s)"
proof -
  obtain s' where c: "cache_members s' = cache_members s" and d: "data s' = data s"
    and r: "on_message D send_ok clk b s = on_message_failed b s'
         \<or> (\<exists>ms. on_message D send_ok clk b s = process_messages D clk ms s')"
    using on_message_cases [of s D send_ok clk b] by blast
  have s': "members_bounded s'"
    using assms c d by (simp add: members_bounded_def)
  from r show ?thesis
  proof
    assume "on_message D send_ok clk b s = on_message_failed b s'"
    then show ?thesis using s' by (simp add: members_bounded_def)
  next
    assume "\<exists>ms. on_message D send_ok clk b s = process_messages D clk ms s'"
    then obtain ms where "on_message D send_ok clk b s = process_messages D clk ms s'" ..
    then show ?thesis using process_messages_bounded [OF s'] by simp
  qed
qed

lemma save_data_frame [simp]:
  "cache_members (save_data lst fs_ok now s) = cache_members s"
  "members (data (save_data lst fs_ok now s)) = members (data s)"
  "session_count (save_data lst fs_ok now s) = session_count s"
  by (simp_all add: save_data_def Let_def)

lemma ttwid_frame [simp]:
  "cache_members (snd (ttwid home s)) = cache_members s"
  "data (snd (ttwid home s)) = data s"
  "session_count (snd (ttwid home s)) = session_count s"
  "live_id (snd (ttwid home s)) = live_id s"
  "is_live (snd (ttwid home s)) = is_live s"
  "room_id_cache (snd (ttwid home s)) = room_id_cache s"
  by (simp_all add: ttwid_def split: option.splits)

lemma room_id_frame [simp]:
  "cache_members (snd (room_id home page s)) = cache_members s"
  "data (snd (room_id home page s)) = data s"
  "session_count (snd (room_id home page s)) = session_count s"
  by (simp_all add: room_id_def Let_def split: option.splits)

lemma stop_frame [simp]:
  "cache_members (stop lst ws fs_ok now s) = cache_members s"
  "members (data (stop lst ws fs_ok now s)) = members (data s)"
  "session_count (stop lst ws fs_ok now s) = session_count s"
  by (simp_all add: stop_def Let_def split: option.splits)

lemma step_session [simp]: "session_count (step D lst s x) = session_count s"
  by (cases x) simp_all

lemma step_cache_mono: "cache_members s |\<subseteq>| cache_members (step D lst s x)"
proof (cases x)
  case (OnMessage ok clk b)
  then show ?thesis by (simp add: on_message_cache_mono)
next
  case (ProcessMessage now m)
  then show ?thesis by (simp add: process_message_cache_mono)
qed simp_all

lemma step_bounded:
  assumes "members_bounded s"
  shows "members_bounded (step D lst s x)"
proof (cases x)
  case (OnMessage ok clk b)
  then show ?thesis using assms by (simp add: on_message_bounded)
next
  case (ProcessMessage now m)
  then show ?thesis using assms by (simp add: process_message_bounded)
next
  case (SaveData ok now)
  then show ?thesis using assms by (simp add: members_bounded_def)
next
  case (RoomId home page)
  then show ?thesis using assms by (simp add: members_bounded_def)
next
  case (Stop ws ok now)
  then show ?thesis using assms by (simp add: members_bounded_def)
qed

lemma run_Nil [simp]: "run D lst [] s = s"
  by (simp add: run_def)

lemma run_snoc [simp]: "run D lst (xs @ [x]) s = step D lst (run D lst xs s) x"
  by (simp add: run_def)

lemma run_session [simp]: "session_count (run D lst xs s) = session_count s"
  by (induction xs rule: rev_induct) simp_all

lemma run_cache_mono: "cache_members s |\<subseteq>| cache_members (run D lst xs s)"
proof (induction xs rule: rev_induct)
  case Nil
  then show ?case by simp
next
  case (snoc x xs)
  have "cache_members (run D lst xs s) |\<subseteq>| cache_members (step D lst (run D lst xs s) x)"
    by (rule step_cache_mono)
  with snoc show ?case by (simp only: run_snoc)
qed

lemma run_bounded: "members_bounded s \<Longrightarrow> members_bounded (run D lst xs s)"
  by (induction xs rule: rev_induct) (simp_all add: step_bounded)

lemma init_bounded: "members_bounded (init dir lid day)"
  by (simp add: members_bounded_def init_def Let_def)

subsection \<open>The small codec, evaluated\<close>

lemma demo_codec_simps [simp]:
  "parse_push_frame demo_codec (x # r) = Some \<lparr>log_id = uint x, payload_type = ''msg'', frame_payload = r\<rparr>"
  "parse_push_frame demo_codec [] = None"
  "gzip_decompress demo_codec (x # r) = Some r"
  "gzip_decompress demo_codec [] = None"
  "parse_response demo_codec (x # r) =
     Some \<lparr>messages_list = [\<lparr>msg_method = ''WebcastChatMessage'', payload = r\<rparr>],
           need_ack = (x \<noteq> 0), internal_ext = ''ext''\<rparr>"
  "parse_response demo_codec [] = None"
  "parse_chat demo_codec (x # r) = Some \<lparr>chat_user = demo_user x, content = ''hello''\<rparr>"
  "parse_chat demo_codec [] = None"
  "parse_gift demo_codec (x # r) =
     Some \<lparr>gift_user = demo_user x, gift = \<lparr>name = ''rose'', diamond_count = 5\<rparr>,
           repeat_count = uint x\<rparr>"
  "parse_gift demo_codec [] = None"
  "parse_member demo_codec (x # r) = Some \<lparr>member_user = demo_user x\<rparr>"
  "parse_member demo_codec [] = None"
  "parse_like demo_codec (x # r) = Some \<lparr>like_count = uint x\<rparr>"
  "parse_like demo_codec [] = None"
  "parse_social demo_codec (x # r) = Some \<lparr>social_user = demo_user x\<rparr>"
  "parse_social demo_codec [] = None"
  "parse_room_user_seq demo_codec (x # r) = Some \<lparr>total_user = uint x\<rparr>"
  "parse_room_user_seq demo_codec [] = None"
  "serialize_push_frame demo_codec f = word_of_int (log_id f) # frame_payload f"
  "encode_utf8 demo_codec = map of_char"
  by (simp_all add: demo_codec_def)

lemma demo_crawler_simps [simp]:
  "gifts (data demo_crawler) = []"
  "members (data demo_crawler) = PySet {||}"
  "cache_members demo_crawler = {||}"
  "trace demo_crawler = []"
  "is_live demo_crawler = True"
  "room_id_cache demo_crawler = None"
  "ttwid_cache demo_crawler = None"
  "live_id demo_crawler = ''X''"
  by (simp_all add: demo_crawler_def init_def Let_def)


section \<open>Aggregator properties\<close>

text \<open>
  Claim C1. Gift events that share one gift name \<open>g\<close>, applied in any order to an
  aggregate that has no entry for \<open>g\<close> yet, leave a GiftStat for \<open>g\<close> whose \<open>count\<close> is the
  sum of the events' \<open>repeat_count\<close>, whose \<open>total_value\<close> is the sum of
  \<open>diamond_count * repeat_count\<close>, and whose \<open>senders\<close> is the set of the senders'
  nicknames. Every event adds to the two sums, also when its sender is already in the set.
\<close>

theorem gift_events_accumulate:
  assumes "\<forall>m\<in>set msgs. msg_method m = ''WebcastGiftMessage''"
    and "map (\<lambda>m. parse_gift D (payload m)) msgs = map Some evs"
    and "\<forall>e\<in>set evs. name (gift e) = g"
    and "evs \<noteq> []"
    and "map_of (gifts (data s)) g = None"
  shows "map_of (gifts (data (process_messages D clk msgs s))) g =
           Some \<lparr>count = (\<Sum>e\<leftarrow>evs. repeat_count e),
                 total_value = (\<Sum>e\<leftarrow>evs. diamond_count (gift e) * repeat_count e),
                 senders = PySet (fset_of_list (map (\<lambda>e. nick_name (gift_user e)) evs))\<rparr>"
  using gift_events_stat [OF assms(1-3), of clk s] assms(4,5)
  by (simp add: stat_of_def new_gift_stat_def)

theorem gift_events_accumulate_witness:
  "map_of (gifts (data (process_messages demo_codec (\<lambda>i. 0)
      [\<lparr>msg_method = ''WebcastGiftMessage'', payload = [2]\<rparr>,
       \<lparr>msg_method = ''WebcastGiftMessage'', payload = [200]\<rparr>,
       \<lparr>msg_method = ''WebcastGiftMessage'', payload = [2]\<rparr>] demo_crawler))) ''rose'' =
     Some \<lparr>count = 204, total_value = 1020, senders = PySet {|''ann'', ''bob''|}\<rparr>"
  using gift_events_accumulate [of
      "[\<lparr>msg_method = ''WebcastGiftMessage'', payload = [2]\<rparr>,
        \<lparr>msg_method = ''WebcastGiftMessage'', payload = [200]\<rparr>,
        \<lparr>msg_method = ''WebcastGiftMessage'', payload = [2]\<rparr>]"
      demo_codec
      "[\<lparr>gift_user = demo_user 2, gift = \<lparr>name = ''rose'', diamond_count = 5\<rparr>, repeat_count = 2\<rparr>,
        \<lparr>gift_user = demo_user 200, gift = \<lparr>name = ''rose'', diamond_count = 5\<rparr>, repeat_count = 200\<rparr>,
        \<lparr>gift_user = demo_user 2, gift = \<lparr>name = ''rose'', diamond_count = 5\<rparr>, repeat_count = 2\<rparr>]"
      "''rose''" demo_crawler "\<lambda>i. 0"]
  by (auto simp add: demo_user_def)

text \<open>
  Claim C8. After a non-empty sequence of viewer-count events, \<open>total_viewers\<close> is the
  value carried by the last one: each event overwrites, none adds.
\<close>

theorem viewer_count_last_write_wins:
  assumes "\<forall>m\<in>set msgs. msg_method m = ''WebcastRoomUserSeqMessage''"
    and "map (\<lambda>m. parse_room_user_seq D (payload m)) msgs = map Some evs"
    and "evs \<noteq> []"
  shows "total_viewers (data (process_messages D clk msgs s)) = total_user (last evs)"
  using assms
proof (induction msgs arbitrary: evs rule: rev_induct)
  case Nil
  then show ?case by simp
next
  case (snoc m ms)
  from snoc.prems(2) obtain es e where evs: "evs = es @ [e]"
    and e: "parse_room_user_seq D (payload m) = Some e"
    by (cases evs rule: rev_cases) auto
  from snoc.prems(1) have "msg_method m = ''WebcastRoomUserSeqMessage''" by simp
  then show ?case
    using e by (simp add: process_messages_append evs process_message_def process_viewer_count_def)
qed

theorem viewer_count_last_write_wins_witness:
  "total_viewers (data (process_messages demo_codec (\<lambda>i. 0)
      [\<lparr>msg_method = ''WebcastRoomUserSeqMessage'', payload = [7]\<rparr>,
       \<lparr>msg_method = ''WebcastRoomUserSeqMessage'', payload = [3]\<rparr>] demo_crawler)) = 3"
  using viewer_count_last_write_wins [of
      "[\<lparr>msg_method = ''WebcastRoomUserSeqMessage'', payload = [7]\<rparr>,
        \<lparr>msg_method = ''WebcastRoomUserSeqMessage'', payload = [3]\<rparr>]"
      demo_codec "[\<lparr>total_user = 7\<rparr>, \<lparr>total_user = 3\<rparr>]" "\<lambda>i. 0" demo_crawler]
  by simp


section \<open>Decimal text of an integer\<close>

text \<open>\<open>int(str(i))\<close> is \<open>i\<close>, so \<open>str\<close> is one-to-one on integers.\<close>

lemma digit_char_props:
  assumes "d < 10"
  shows "is_digit (digit_char d)" "digit_value (digit_char d) = d" "\<not> is_space (digit_char d)"
    "digit_char d \<noteq> CHR ''_''" "digit_char d \<noteq> CHR ''-''" "digit_char d \<noteq> CHR ''+''"
  using assms
  by (auto simp add: is_digit_def digit_value_def digit_char_def is_space_def
      simp flip: of_char_eq_iff [where ?'a = nat])

lemma str_nat_digits: "list_all is_digit (str_nat n)"
  by (induction n rule: str_nat.induct) (subst str_nat.simps, simp add: digit_char_props)

lemma str_nat_nonempty: "str_nat n \<noteq> []"
  by (subst str_nat.simps) simp

lemma str_nat_value: "foldl (\<lambda>a c. 10 * a + digit_value c) 0 (str_nat n) = n"
  by (induction n rule: str_nat.induct) (subst str_nat.simps, simp add: digit_char_props)

lemma digits_value_str_nat: "digits_value (str_nat n) = Some n"
  by (simp add: digits_value_def str_nat_digits str_nat_nonempty str_nat_value)

lemma is_digit_not_special:
  assumes "is_digit c"
  shows "\<not> is_space c" "c \<noteq> CHR ''_''" "c \<noteq> CHR ''-''" "c \<noteq> CHR ''+''"
  using assms
  by (auto simp add: is_digit_def is_space_def)

lemma strip_digits:
  assumes "list_all is_digit ds" "ds \<noteq> []"
  shows "strip ds = ds" "strip (CHR ''-'' # ds) = CHR ''-'' # ds"
proof -
  have h: "\<not> is_space (hd ds)" "\<not> is_space (last ds)"
    using assms by (auto simp add: list_all_iff is_digit_not_special)
  have m: "\<not> is_space (CHR ''-'')" by (simp add: is_space_def)
  have d: "dropWhile is_space ds = ds" using h(1) assms(2) by (cases ds) simp_all
  have r: "dropWhile is_space (rev ds) = rev ds"
    using h(2) assms(2) by (cases ds rule: rev_cases) simp_all
  show "strip ds = ds" by (simp add: strip_def d r)
  have "dropWhile is_space (rev ds @ [CHR ''-'']) = rev ds @ [CHR ''-'']"
    using h(2) assms(2) by (cases ds rule: rev_cases) simp_all
  then show "strip (CHR ''-'' # ds) = CHR ''-'' # ds" by (simp add: strip_def m)
qed

lemma py_int_str_int: "py_int (str_int i) = Some i"
proof (cases "i < 0")
  case True
  then show ?thesis
    by (simp add: py_int_def str_int_def strip_digits str_nat_digits str_nat_nonempty
        digits_value_str_nat)
next
  case False
  obtain c r where cr: "str_nat (nat i) = c # r"
    using str_nat_nonempty [of "nat i"] by (cases "str_nat (nat i)") auto
  have "is_digit c" using str_nat_digits [of "nat i"] cr by simp
  then have "c \<noteq> CHR ''-''" "c \<noteq> CHR ''+''" by (simp_all add: is_digit_not_special)
  moreover have "strip (str_nat (nat i)) = str_nat (nat i)"
    by (simp add: strip_digits str_nat_digits str_nat_nonempty)
  ultimately show ?thesis
    using False digits_value_str_nat [of "nat i"] cr
    by (simp add: py_int_def str_int_def)
qed

lemma str_int_inj: "str_int a = str_int b \<longleftrightarrow> a = b"
proof
  assume "str_int a = str_int b"
  then have "py_int (str_int a) = py_int (str_int b)" by simp
  then show "a = b" by (simp add: py_int_str_int)
qed simp

lemma str_int_no_underscore: "CHR ''_'' \<notin> set (str_int i)"
proof -
  have "CHR ''_'' \<notin> set (str_nat n)" for n
    using str_nat_digits [of n] is_digit_not_special(2) by (auto simp add: list_all_iff)
  then show ?thesis by (simp add: str_int_def)
qed

section \<open>Member deduplication\<close>

lemma demo_entered_simps:
  "cache_members demo_entered = {|str_int 1|}"
  "members (data demo_entered) = PySet {|''ann''|}"
  by (simp_all add: demo_entered_def process_message_def process_member_message_def Let_def
      demo_user_def)

text \<open>
  Claim C3, as the code has it. Two Member events with the same \<open>user_id\<close>, the first one
  seen while that user is not in the dedup set, with any operations between them: the
  first puts the nickname into the members set, which is one entry more when the nickname
  is not in the set yet and no entry more when another user has entered under it; it
  adds the user to the dedup set and writes the "entered" line once. The second changes
  nothing at all, whatever happened in between (the dedup set only grows, there is no
  time window).
\<close>

theorem member_replay_is_noop:
  assumes "msg_method m1 = ''WebcastMemberMessage''"
    and "msg_method m2 = ''WebcastMemberMessage''"
    and "parse_member D (payload m1) = Some e1"
    and "parse_member D (payload m2) = Some e2"
    and "user_id (member_user e1) = user_id (member_user e2)"
    and "str_int (user_id (member_user e1)) |\<notin>| cache_members s"
  shows "members (data (process_message D t1 m1 s))
           = PySet (finsert (nick_name (member_user e1)) (elems (members (data s))))
       \<and> (nick_name (member_user e1) |\<notin>| elems (members (data s)) \<longrightarrow>
            fcard (elems (members (data (process_message D t1 m1 s))))
              = Suc (fcard (elems (members (data s)))))
       \<and> (nick_name (member_user e1) |\<in>| elems (members (data s)) \<longrightarrow>
            elems (members (data (process_message D t1 m1 s))) = elems (members (data s)))
       \<and> cache_members (process_message D t1 m1 s)
           = finsert (str_int (user_id (member_user e1))) (cache_members s)
       \<and> trace (process_message D t1 m1 s)
           = trace s @ [Log (InfoEntered (nick_name (member_user e1)))]
       \<and> process_message D t2 m2 (run D lst between (process_message D t1 m1 s))
           = run D lst between (process_message D t1 m1 s)"
proof -
  let ?k = "str_int (user_id (member_user e1))"
  let ?s1 = "process_message D t1 m1 s"
  have s1: "?s1 = process_member_message D m1 s"
    using assms(1) by (simp add: process_message_def)
  have first: "process_member_message D m1 s =
      logger (InfoEntered (nick_name (member_user e1)))
        (s\<lparr>cache_members := finsert ?k (cache_members s),
           data := (data s)\<lparr>members :=
             PySet (finsert (nick_name (member_user e1)) (elems (members (data s))))\<rparr>\<rparr>)"
    by (rule member_first [OF assms(3) assms(6)])
  have "?k |\<in>| cache_members ?s1"
    by (simp add: s1 first)
  then have "?k |\<in>| cache_members (run D lst between ?s1)"
    using run_cache_mono [of ?s1 D lst between] by auto
  then have "process_member_message D m2 (run D lst between ?s1) = run D lst between ?s1"
    using member_seen [OF assms(4)] assms(5) by simp
  then have "process_message D t2 m2 (run D lst between ?s1) = run D lst between ?s1"
    using assms(2) by (simp add: process_message_def)
  then show ?thesis
    by (simp add: s1 first fcard_finsert_disjoint finsert_absorb)
qed

theorem member_replay_is_noop_witness:
  "members (data (process_message demo_codec 10
       \<lparr>msg_method = ''WebcastMemberMessage'', payload = [1]\<rparr> demo_crawler))
     = PySet {|''ann''|}
   \<and> fcard (elems (members (data (process_message demo_codec 10
       \<lparr>msg_method = ''WebcastMemberMessage'', payload = [1]\<rparr> demo_crawler)))) = 1
   \<and> trace (process_message demo_codec 10
       \<lparr>msg_method = ''WebcastMemberMessage'', payload = [1]\<rparr> demo_crawler)
     = [Log (InfoEntered ''ann'')]
   \<and> process_message demo_codec 30 \<lparr>msg_method = ''WebcastMemberMessage'', payload = [1, 9]\<rparr>
       (run demo_codec demo_order
         [ProcessMessage 20 \<lparr>msg_method = ''WebcastMemberMessage'', payload = [200]\<rparr>,
          SaveData True 25]
         (process_message demo_codec 10
            \<lparr>msg_method = ''WebcastMemberMessage'', payload = [1]\<rparr> demo_crawler))
     = run demo_codec demo_order
         [ProcessMessage 20 \<lparr>msg_method = ''WebcastMemberMessage'', payload = [200]\<rparr>,
          SaveData True 25]
         (process_message demo_codec 10
            \<lparr>msg_method = ''WebcastMemberMessage'', payload = [1]\<rparr> demo_crawler)
   \<and> elems (members (data (process_message demo_codec 40
       \<lparr>msg_method = ''WebcastMemberMessage'', payload = [2]\<rparr> demo_entered)))
     = elems (members (data demo_entered))"
proof -
  let ?m1 = "\<lparr>msg_method = ''WebcastMemberMessage'', payload = [1]\<rparr>"
  let ?m2 = "\<lparr>msg_method = ''WebcastMemberMessage'', payload = [1, 9]\<rparr>"
  let ?m3 = "\<lparr>msg_method = ''WebcastMemberMessage'', payload = [2]\<rparr>"
  let ?e = "\<lparr>member_user = demo_user 1\<rparr>"
  let ?e3 = "\<lparr>member_user = demo_user 2\<rparr>"
  let ?between = "[ProcessMessage 20 \<lparr>msg_method = ''WebcastMemberMessage'', payload = [200]\<rparr>,
          SaveData True 25]"
  have h1: "msg_method ?m1 = ''WebcastMemberMessage''" by simp
  have h2: "msg_method ?m2 = ''WebcastMemberMessage''" by simp
  have h3: "parse_member demo_codec (payload ?m1) = Some ?e" by simp
  have h4: "parse_member demo_codec (payload ?m2) = Some ?e" by simp
  have h5: "user_id (member_user ?e) = user_id (member_user ?e)" by simp
  have h6: "str_int (user_id (member_user ?e)) |\<notin>| cache_members demo_crawler" by simp
  have h7: "nick_name (member_user ?e) |\<notin>| elems (members (data demo_crawler))" by simp
  have k1: "msg_method ?m3 = ''WebcastMemberMessage''" by simp
  have k3: "parse_member demo_codec (payload ?m3) = Some ?e3" by simp
  have k5: "user_id (member_user ?e3) = user_id (member_user ?e3)" by simp
  have k6: "str_int (user_id (member_user ?e3)) |\<notin>| cache_members demo_entered"
    by (simp add: demo_entered_simps demo_user_def str_int_inj)
  have k7: "nick_name (member_user ?e3) |\<in>| elems (members (data demo_entered))"
    by (simp add: demo_entered_simps demo_user_def)
  note t = member_replay_is_noop [OF h1 h2 h3 h4 h5 h6, of 10 30 demo_order ?between]
  note u = member_replay_is_noop [OF k1 k1 k3 k3 k5 k6, of 40 50 demo_order "[]"]
  from t have a: "members (data (process_message demo_codec 10 ?m1 demo_crawler))
       = PySet (finsert (nick_name (member_user ?e)) (elems (members (data demo_crawler))))"
    by (elim conjE)
  have b: "fcard (elems (members (data (process_message demo_codec 10 ?m1 demo_crawler))))
       = Suc (fcard (elems (members (data demo_crawler))))"
    by (rule t [THEN conjunct2, THEN conjunct1, THEN mp, OF h7])
  from t have c: "trace (process_message demo_codec 10 ?m1 demo_crawler)
       = trace demo_crawler @ [Log (InfoEntered (nick_name (member_user ?e)))]"
    by (elim conjE)
  from t have d: "process_message demo_codec 30 ?m2
       (run demo_codec demo_order ?between (process_message demo_codec 10 ?m1 demo_crawler))
     = run demo_codec demo_order ?between (process_message demo_codec 10 ?m1 demo_crawler)"
    by (elim conjE)
  have e: "elems (members (data (process_message demo_codec 40 ?m3 demo_entered)))
     = elems (members (data demo_entered))"
    by (rule u [THEN conjunct2, THEN conjunct2, THEN conjunct1, THEN mp, OF k7])
  from a have a': "members (data (process_message demo_codec 10 ?m1 demo_crawler))
       = PySet {|''ann''|}"
    by (simp add: demo_user_def)
  from b have b': "fcard (elems (members (data (process_message demo_codec 10 ?m1 demo_crawler))))
       = 1"
    by (simp only: demo_crawler_simps elems.simps fcard_fempty One_nat_def)
  from c have c': "trace (process_message demo_codec 10 ?m1 demo_crawler)
       = [Log (InfoEntered ''ann'')]"
    by (simp add: demo_user_def)
  from a' b' c' d e show ?thesis by (intro conjI)
qed

text \<open>
  The claim as stated fails: user 1 has entered as \<open>ann\<close>; user 2, not seen before, enters
  twice under the same nickname, and the members set has one entry before the pair,
  between its two events and after it.
\<close>

theorem member_pair_adds_no_entry_counterexample:
  "str_int 2 |\<notin>| cache_members demo_entered
   \<and> fcard (elems (members (data demo_entered))) = 1
   \<and> fcard (elems (members (data (process_message demo_codec 20
        \<lparr>msg_method = ''WebcastMemberMessage'', payload = [2]\<rparr> demo_entered)))) = 1
   \<and> fcard (elems (members (data (process_message demo_codec 30
        \<lparr>msg_method = ''WebcastMemberMessage'', payload = [2]\<rparr>
        (process_message demo_codec 20
           \<lparr>msg_method = ''WebcastMemberMessage'', payload = [2]\<rparr> demo_entered))))) = 1"
proof -
  let ?m = "\<lparr>msg_method = ''WebcastMemberMessage'', payload = [2]\<rparr>"
  let ?e = "\<lparr>member_user = demo_user 2\<rparr>"
  have p: "parse_member demo_codec (payload ?m) = Some ?e" by simp
  have k: "str_int 2 |\<notin>| cache_members demo_entered"
    by (simp add: demo_entered_simps str_int_inj)
  then have k': "str_int (user_id (member_user ?e)) |\<notin>| cache_members demo_entered"
    by (simp add: demo_user_def)
  have one: "process_message demo_codec t ?m demo_entered = process_member_message demo_codec ?m demo_entered"
    for t by (simp add: process_message_def)
  have m1: "elems (members (data (process_member_message demo_codec ?m demo_entered))) = {|''ann''|}"
    by (simp add: member_first [OF p k'] demo_entered_simps demo_user_def)
  have seen: "str_int (user_id (member_user ?e))
                |\<in>| cache_members (process_member_message demo_codec ?m demo_entered)"
    by (simp add: member_first [OF p k'])
  have two: "process_message demo_codec 30 ?m (process_member_message demo_codec ?m demo_entered)
               = process_member_message demo_codec ?m demo_entered"
    using member_seen [OF p seen] by (simp add: process_message_def)
  have f1: "fcard {|''ann''|} = 1"
    by (simp add: fcard_finsert_disjoint fcard_fempty)
  have c0: "fcard (elems (members (data demo_entered))) = 1"
    by (simp add: demo_entered_simps f1)
  have c1: "fcard (elems (members (data (process_message demo_codec 20 ?m demo_entered)))) = 1"
    by (simp add: one m1 f1)
  have c2: "fcard (elems (members (data (process_message demo_codec 30 ?m
              (process_message demo_codec 20 ?m demo_entered))))) = 1"
    by (simp add: one two m1 f1)
  from k c0 c1 c2 show ?thesis by (intro conjI)
qed

text \<open>
  Claim C10. The dedup set is keyed by \<open>str(user.id)\<close>, the members set holds nicknames.
  After every sequence of operations on a fresh crawler the members set is no larger than
  the dedup set; and two Member events of distinct, so far unseen users with one nickname
  put two keys into the dedup set and one entry into the members set.
\<close>

theorem members_bounded_by_dedup:
  assumes "msg_method m1 = ''WebcastMemberMessage''"
    and "msg_method m2 = ''WebcastMemberMessage''"
    and "parse_member D (payload m1) = Some e1"
    and "parse_member D (payload m2) = Some e2"
    and "user_id (member_user e1) \<noteq> user_id (member_user e2)"
    and "nick_name (member_user e1) = nick_name (member_user e2)"
    and "str_int (user_id (member_user e1)) |\<notin>| cache_members s"
    and "str_int (user_id (member_user e2)) |\<notin>| cache_members s"
  shows "fcard (elems (members (data (run D lst ops (init dir lid day)))))
           \<le> fcard (cache_members (run D lst ops (init dir lid day)))
       \<and> cache_members (process_message D t2 m2 (process_message D t1 m1 s))
           = finsert (str_int (user_id (member_user e2)))
               (finsert (str_int (user_id (member_user e1))) (cache_members s))
       \<and> fcard (cache_members (process_message D t2 m2 (process_message D t1 m1 s)))
           = fcard (cache_members s) + 2
       \<and> elems (members (data (process_message D t2 m2 (process_message D t1 m1 s))))
           = finsert (nick_name (member_user e1)) (elems (members (data s)))"
proof -
  let ?k1 = "str_int (user_id (member_user e1))"
  let ?k2 = "str_int (user_id (member_user e2))"
  let ?s1 = "process_member_message D m1 s"
  have inv: "members_bounded (run D lst ops (init dir lid day))"
    by (rule run_bounded [OF init_bounded])
  have ne: "?k2 \<noteq> ?k1" using assms(5) by (simp add: str_int_inj)
  have first: "?s1 =
      logger (InfoEntered (nick_name (member_user e1)))
        (s\<lparr>cache_members := finsert ?k1 (cache_members s),
           data := (data s)\<lparr>members :=
             PySet (finsert (nick_name (member_user e1)) (elems (members (data s))))\<rparr>\<rparr>)"
    by (rule member_first [OF assms(3) assms(7)])
  have k2: "?k2 |\<notin>| cache_members ?s1"
    using assms(8) ne by (simp add: first)
  have second: "process_member_message D m2 ?s1 =
      logger (InfoEntered (nick_name (member_user e2)))
        (?s1\<lparr>cache_members := finsert ?k2 (cache_members ?s1),
           data := (data ?s1)\<lparr>members :=
             PySet (finsert (nick_name (member_user e2)) (elems (members (data ?s1))))\<rparr>\<rparr>)"
    by (rule member_first [OF assms(4) k2])
  have both: "process_message D t2 m2 (process_message D t1 m1 s)
               = process_member_message D m2 ?s1"
    using assms(1,2) by (simp add: process_message_def)
  have c: "cache_members (process_member_message D m2 ?s1)
             = finsert ?k2 (finsert ?k1 (cache_members s))"
    by (subst second) (simp add: first)
  have m: "elems (members (data (process_member_message D m2 ?s1)))
             = finsert (nick_name (member_user e1)) (elems (members (data s)))"
    by (subst second) (simp add: first assms(6) [symmetric])
  have "fcard (finsert ?k2 (finsert ?k1 (cache_members s))) = fcard (cache_members s) + 2"
    using assms(7,8) ne by (simp add: fcard_finsert_disjoint)
  then show ?thesis
    using inv c m by (simp add: both members_bounded_def)
qed

theorem members_bounded_by_dedup_witness:
  "fcard (elems (members (data (run demo_codec demo_order
        [ProcessMessage 1 \<lparr>msg_method = ''WebcastMemberMessage'', payload = [1]\<rparr>]
        (init [] ''X'' ''2024-01-01'')))))
     \<le> fcard (cache_members (run demo_codec demo_order
        [ProcessMessage 1 \<lparr>msg_method = ''WebcastMemberMessage'', payload = [1]\<rparr>]
        (init [] ''X'' ''2024-01-01'')))
   \<and> fcard (cache_members (process_message demo_codec 2
         \<lparr>msg_method = ''WebcastMemberMessage'', payload = [2]\<rparr>
         (process_message demo_codec 1
            \<lparr>msg_method = ''WebcastMemberMessage'', payload = [1]\<rparr> demo_crawler))) = 2
   \<and> elems (members (data (process_message demo_codec 2
         \<lparr>msg_method = ''WebcastMemberMessage'', payload = [2]\<rparr>
         (process_message demo_codec 1
            \<lparr>msg_method = ''WebcastMemberMessage'', payload = [1]\<rparr> demo_crawler))))
       = {|''ann''|}"
proof -
  let ?m1 = "\<lparr>msg_method = ''WebcastMemberMessage'', payload = [1]\<rparr>"
  let ?m2 = "\<lparr>msg_method = ''WebcastMemberMessage'', payload = [2]\<rparr>"
  let ?e1 = "\<lparr>member_user = demo_user 1\<rparr>"
  let ?e2 = "\<lparr>member_user = demo_user 2\<rparr>"
  have h1: "msg_method ?m1 = ''WebcastMemberMessage''" by simp
  have h2: "msg_method ?m2 = ''WebcastMemberMessage''" by simp
  have h3: "parse_member demo_codec (payload ?m1) = Some ?e1" by simp
  have h4: "parse_member demo_codec (payload ?m2) = Some ?e2" by simp
  have h5: "user_id (member_user ?e1) \<noteq> user_id (member_user ?e2)"
    by (simp add: demo_user_def)
  have h6: "nick_name (member_user ?e1) = nick_name (member_user ?e2)"
    by (simp add: demo_user_def)
  have h7: "str_int (user_id (member_user ?e1)) |\<notin>| cache_members demo_crawler" by simp
  have h8: "str_int (user_id (member_user ?e2)) |\<notin>| cache_members demo_crawler" by simp
  note t = members_bounded_by_dedup [OF h1 h2 h3 h4 h5 h6 h7 h8, of demo_order
      "[ProcessMessage 1 ?m1]" "[]" "''X''" "''2024-01-01''" 2 1]
  from t have a: "fcard (elems (members (data (run demo_codec demo_order [ProcessMessage 1 ?m1]
        (init [] ''X'' ''2024-01-01'')))))
     \<le> fcard (cache_members (run demo_codec demo_order [ProcessMessage 1 ?m1]
        (init [] ''X'' ''2024-01-01'')))"
    by (rule conjunct1)
  from t have b: "fcard (cache_members (process_message demo_codec 2 ?m2
         (process_message demo_codec 1 ?m1 demo_crawler))) = fcard (cache_members demo_crawler) + 2"
    by (elim conjE)
  from t have c: "elems (members (data (process_message demo_codec 2 ?m2
         (process_message demo_codec 1 ?m1 demo_crawler))))
       = finsert (nick_name (member_user ?e1)) (elems (members (data demo_crawler)))"
    by (elim conjE)
  from b have b': "fcard (cache_members (process_message demo_codec 2 ?m2
         (process_message demo_codec 1 ?m1 demo_crawler))) = 2"
    by (simp only: demo_crawler_simps fcard_fempty)
  from c have c': "elems (members (data (process_message demo_codec 2 ?m2
         (process_message demo_codec 1 ?m1 demo_crawler)))) = {|''ann''|}"
    by (simp add: demo_user_def)
  from a b' c' show ?thesis by (intro conjI)
qed

section \<open>Dispatcher: malformed and unknown sub-messages\<close>

lemma logger_trace_upd: "logger l s = s\<lparr>trace := trace s @ [Log l]\<rparr>"
  by (simp add: logger_def emit_def)

lemma process_message_decode_fails:
  "decode_fails D m \<Longrightarrow> process_message D now m s = logger (decode_error m) s"
  by (auto simp add: decode_fails_def decode_error_def process_message_def
      process_chat_message_def process_gift_message_def process_member_message_def
      process_like_message_def process_follow_message_def process_viewer_count_def
      split: if_splits)

lemma process_message_unknown:
  "\<not> known_method m \<Longrightarrow> process_message D now m s = s"
  by (simp add: known_method_def process_message_def)

lemma unknown_not_decode_fails: "\<not> known_method m \<Longrightarrow> \<not> decode_fails D m"
  by (simp add: known_method_def decode_fails_def)

lemma process_messages_skipped:
  assumes "\<forall>m\<in>set ms. decode_fails D m \<or> \<not> known_method m"
  shows "process_messages D clk ms s =
           s\<lparr>trace := trace s @ map (\<lambda>m. Log (decode_error m)) (filter (decode_fails D) ms)\<rparr>"
  using assms
proof (induction ms arbitrary: clk s)
  case Nil
  then show ?case by simp
next
  case (Cons m ms)
  show ?case
  proof (cases "decode_fails D m")
    case True
    then show ?thesis
      using Cons by (simp add: process_message_decode_fails logger_trace_upd)
  next
    case False
    then have "\<not> known_method m" using Cons.prems by simp
    then show ?thesis
      using Cons False by (simp add: process_message_unknown)
  qed
qed

lemma process_gift_message_trace_upd:
  "process_gift_message D g (s\<lparr>trace := t\<rparr>)
     = (process_gift_message D g s)\<lparr>trace := t @ drop (length (trace s)) (trace (process_gift_message D g s))\<rparr>"
  by (simp add: process_gift_message_def Let_def logger_def emit_def split: option.splits)

lemma process_gift_message_trace:
  assumes "parse_gift D (payload g) = Some e"
  shows "trace (process_gift_message D g s)
           = trace s @ [Log (InfoGift (nick_name (gift_user e)) (name (gift e)) (repeat_count e))]"
  using assms
  by (cases "map_of (gifts (data s)) (name (gift e))")
    (simp_all add: process_gift_message_def Let_def map_of_map_entry update_conv')

text \<open>
  Claim C4. In a batch that holds a well-formed Gift sub-message, with sub-messages before
  and after it that do not decode or carry an unknown method tag, the aggregate ends as if
  the Gift had been applied alone: each sub-message that does not decode writes its one
  error line and is passed over, an unknown tag leaves no mark, and the rest of the batch
  is still processed.
\<close>

theorem malformed_sub_message_is_skipped:
  assumes "msg_method g = ''WebcastGiftMessage''"
    and "parse_gift D (payload g) = Some e"
    and "\<forall>m\<in>set pre \<union> set post. decode_fails D m \<or> \<not> known_method m"
  shows "data (process_messages D clk (pre @ g # post) s) = data (process_gift_message D g s)
       \<and> map_of (gifts (data (process_messages D clk (pre @ g # post) s))) (name (gift e))
           = Some \<lparr>count = count (stat_of s (name (gift e))) + repeat_count e,
                   total_value = total_value (stat_of s (name (gift e)))
                     + diamond_count (gift e) * repeat_count e,
                   senders = PySet (finsert (nick_name (gift_user e))
                     (elems (senders (stat_of s (name (gift e))))))\<rparr>
       \<and> trace (process_messages D clk (pre @ g # post) s)
           = trace s @ map (\<lambda>m. Log (decode_error m)) (filter (decode_fails D) pre)
               @ [Log (InfoGift (nick_name (gift_user e)) (name (gift e)) (repeat_count e))]
               @ map (\<lambda>m. Log (decode_error m)) (filter (decode_fails D) post)"
proof -
  let ?t1 = "trace s @ map (\<lambda>m. Log (decode_error m)) (filter (decode_fails D) pre)"
  let ?G = "process_gift_message D g s"
  let ?ev = "Log (InfoGift (nick_name (gift_user e)) (name (gift e)) (repeat_count e))"
  have pre: "process_messages D clk pre s = s\<lparr>trace := ?t1\<rparr>"
    using assms(3) by (intro process_messages_skipped) simp
  have tr: "trace ?G = trace s @ [?ev]"
    by (rule process_gift_message_trace [OF assms(2)])
  have mid: "process_message D now g (s\<lparr>trace := ?t1\<rparr>) = ?G\<lparr>trace := ?t1 @ [?ev]\<rparr>" for now
    using assms(1) by (simp add: process_message_def process_gift_message_trace_upd [where s = s and t = ?t1] tr)
  have post: "process_messages D clk' post s' =
      s'\<lparr>trace := trace s' @ map (\<lambda>m. Log (decode_error m)) (filter (decode_fails D) post)\<rparr>"
    for clk' s'
    using assms(3) by (intro process_messages_skipped) simp
  have all: "process_messages D clk (pre @ g # post) s =
      ?G\<lparr>trace := ?t1 @ [?ev] @ map (\<lambda>m. Log (decode_error m)) (filter (decode_fails D) post)\<rparr>"
    by (simp add: process_messages_append pre mid post)
  show ?thesis
    using process_gift_message_stat [OF assms(2), of s "name (gift e)"]
    by (simp add: all)
qed

theorem malformed_sub_message_is_skipped_witness:
  "map_of (gifts (data (process_messages demo_codec (\<lambda>i. 0)
      ([\<lparr>msg_method = ''WebcastChatMessage'', payload = []\<rparr>]
        @ \<lparr>msg_method = ''WebcastGiftMessage'', payload = [3]\<rparr>
        # [\<lparr>msg_method = ''WebcastFansclubMessage'', payload = [1]\<rparr>]) demo_crawler))) ''rose''
     = Some \<lparr>count = 3, total_value = 15, senders = PySet {|''ann''|}\<rparr>
   \<and> trace (process_messages demo_codec (\<lambda>i. 0)
      ([\<lparr>msg_method = ''WebcastChatMessage'', payload = []\<rparr>]
        @ \<lparr>msg_method = ''WebcastGiftMessage'', payload = [3]\<rparr>
        # [\<lparr>msg_method = ''WebcastFansclubMessage'', payload = [1]\<rparr>]) demo_crawler)
     = [Log ErrorChat, Log (InfoGift ''ann'' ''rose'' 3)]"
proof -
  let ?bad = "\<lparr>msg_method = ''WebcastChatMessage'', payload = []\<rparr>"
  let ?g = "\<lparr>msg_method = ''WebcastGiftMessage'', payload = [3]\<rparr>"
  let ?u = "\<lparr>msg_method = ''WebcastFansclubMessage'', payload = [1]\<rparr>"
  let ?e = "\<lparr>gift_user = demo_user 3, gift = \<lparr>name = ''rose'', diamond_count = 5\<rparr>,
             repeat_count = uint (3 :: 8 word)\<rparr>"
  have h1: "msg_method ?g = ''WebcastGiftMessage''" by simp
  have h2: "parse_gift demo_codec (payload ?g) = Some ?e" by simp
  have bad: "decode_fails demo_codec ?bad" by (simp add: decode_fails_def)
  have unk: "\<not> known_method ?u" by (simp add: known_method_def)
  have nf: "\<not> decode_fails demo_codec ?u" by (simp add: decode_fails_def)
  have h3: "\<forall>m\<in>set [?bad] \<union> set [?u]. decode_fails demo_codec m \<or> \<not> known_method m"
    using bad unk by simp
  note t = malformed_sub_message_is_skipped [OF h1 h2 h3, of "\<lambda>i. 0" demo_crawler]
  from t have a: "map_of (gifts (data (process_messages demo_codec (\<lambda>i. 0)
      ([?bad] @ ?g # [?u]) demo_crawler))) (name (gift ?e))
     = Some \<lparr>count = count (stat_of demo_crawler (name (gift ?e))) + repeat_count ?e,
             total_value = total_value (stat_of demo_crawler (name (gift ?e)))
               + diamond_count (gift ?e) * repeat_count ?e,
             senders = PySet (finsert (nick_name (gift_user ?e))
               (elems (senders (stat_of demo_crawler (name (gift ?e))))))\<rparr>"
    by (elim conjE)
  from t have b: "trace (process_messages demo_codec (\<lambda>i. 0) ([?bad] @ ?g # [?u]) demo_crawler)
     = trace demo_crawler @ map (\<lambda>m. Log (decode_error m)) (filter (decode_fails demo_codec) [?bad])
         @ [Log (InfoGift (nick_name (gift_user ?e)) (name (gift ?e)) (repeat_count ?e))]
         @ map (\<lambda>m. Log (decode_error m)) (filter (decode_fails demo_codec) [?u])"
    by (elim conjE)
  have st: "stat_of demo_crawler ''rose'' = new_gift_stat" by (simp add: stat_of_def)
  from a have a': "map_of (gifts (data (process_messages demo_codec (\<lambda>i. 0)
      ([?bad] @ ?g # [?u]) demo_crawler))) ''rose''
     = Some \<lparr>count = 3, total_value = 15, senders = PySet {|''ann''|}\<rparr>"
    by (simp add: st new_gift_stat_def demo_user_def)
  from b have b': "trace (process_messages demo_codec (\<lambda>i. 0) ([?bad] @ ?g # [?u]) demo_crawler)
     = [Log ErrorChat, Log (InfoGift ''ann'' ''rose'' 3)]"
    by (simp add: bad nf decode_error_def demo_user_def)
  from a' b' show ?thesis by (intro conjI)
qed

section \<open>Frame codec: the acknowledgement\<close>

lemma process_message_logs:
  "\<exists>ls. trace (process_message D now m s) = trace s @ map Log ls"
proof -
  have e: "\<exists>ls. trace s @ [Log l] = trace s @ map Log ls" for l
    by (rule exI [of _ "[l]"]) simp
  have n: "\<exists>ls. trace s = trace s @ map Log ls"
    by (rule exI [of _ "[]"]) simp
  have chat: "\<exists>ls. trace (process_chat_message D now m s) = trace s @ map Log ls"
    using e by (simp add: process_chat_message_def Let_def split: option.splits)
  have gift: "\<exists>ls. trace (process_gift_message D m s) = trace s @ map Log ls"
    using e by (simp add: process_gift_message_def Let_def split: option.splits)
  have member: "\<exists>ls. trace (process_member_message D m s) = trace s @ map Log ls"
    using e n by (simp add: process_member_message_def Let_def split: option.splits)
  have like: "\<exists>ls. trace (process_like_message D m s) = trace s @ map Log ls"
    using e n by (simp add: process_like_message_def Let_def split: option.splits)
  have follow: "\<exists>ls. trace (process_follow_message D now m s) = trace s @ map Log ls"
    using e by (simp add: process_follow_message_def Let_def split: option.splits)
  have viewer: "\<exists>ls. trace (process_viewer_count D m s) = trace s @ map Log ls"
    using e n by (simp add: process_viewer_count_def split: option.splits)
  show ?thesis
    using chat gift member like follow viewer n by (simp add: process_message_def)
qed

lemma process_messages_logs:
  "\<exists>ls. trace (process_messages D clk ms s) = trace s @ map Log ls"
proof (induction ms arbitrary: clk s)
  case Nil
  show ?case by (rule exI [of _ "[]"]) simp
next
  case (Cons m ms)
  obtain l1 where l1: "trace (process_message D (clk 0) m s) = trace s @ map Log l1"
    using process_message_logs by blast
  obtain l2 where l2: "trace (process_messages D (\<lambda>i. clk (Suc i)) ms (process_message D (clk 0) m s))
      = trace (process_message D (clk 0) m s) @ map Log l2"
    using Cons.IH by blast
  show ?case
    by (rule exI [of _ "l1 @ l2"]) (simp add: l1 l2)
qed

lemma no_send_in_logs: "\<not> list_ex is_send (map Log ls)"
  by (induction ls) simp_all


text \<open>
  Claim C2. When the inbound envelope parses, decompresses and parses to a batch with
  \<open>need_ack\<close>, the handler calls \<open>ws.send\<close> once, with the envelope that has the inbound
  \<open>log_id\<close>, the payload type \<open>ack\<close> and the UTF-8 bytes of \<open>internal_ext\<close> as payload. The
  call comes first: everything the handler does afterwards is logging, and when the send
  returns, the sub-messages are dispatched on the state that already holds it.
\<close>

theorem ack_sent_before_dispatch:
  assumes "parse_push_frame D raw = Some package"
    and "gzip_decompress D (frame_payload package) = Some bytes"
    and "parse_response D bytes = Some resp"
    and "need_ack resp"
  shows "(\<exists>rest. trace (on_message D send_ok clk raw s)
             = trace s
               @ WsSend (serialize_push_frame D
                   \<lparr>log_id = log_id package, payload_type = ''ack'',
                    frame_payload = encode_utf8 D (internal_ext resp)\<rparr>) send_ok
               # rest
           \<and> \<not> list_ex is_send rest)
       \<and> (send_ok \<longrightarrow> on_message D send_ok clk raw s
             = process_messages D clk (messages_list resp)
                 (emit (WsSend (serialize_push_frame D
                   \<lparr>log_id = log_id package, payload_type = ''ack'',
                    frame_payload = encode_utf8 D (internal_ext resp)\<rparr>) True) s))"
proof -
  let ?ack = "WsSend (serialize_push_frame D
                   \<lparr>log_id = log_id package, payload_type = ''ack'',
                    frame_payload = encode_utf8 D (internal_ext resp)\<rparr>) send_ok"
  have unfold: "on_message D send_ok clk raw s =
      (if send_ok then process_messages D clk (messages_list resp) (emit ?ack s)
       else on_message_failed raw (emit ?ack s))"
    using assms by (simp add: on_message_def ack_frame_def Let_def)
  show ?thesis
  proof (cases send_ok)
    case True
    obtain ls where ls: "trace (process_messages D clk (messages_list resp) (emit ?ack s))
        = trace (emit ?ack s) @ map Log ls"
      using process_messages_logs by blast
    have u: "on_message D send_ok clk raw s
               = process_messages D clk (messages_list resp) (emit ?ack s)"
      using unfold True by (simp only: if_True)
    have "trace (on_message D send_ok clk raw s) = trace s @ ?ack # map Log ls
        \<and> \<not> list_ex is_send (map Log ls)"
      by (simp only: u ls no_send_in_logs) simp
    then have "\<exists>rest. trace (on_message D send_ok clk raw s) = trace s @ ?ack # rest
        \<and> \<not> list_ex is_send rest" by blast
    moreover have "on_message D send_ok clk raw s
             = process_messages D clk (messages_list resp)
                 (emit (WsSend (serialize_push_frame D
                   \<lparr>log_id = log_id package, payload_type = ''ack'',
                    frame_payload = encode_utf8 D (internal_ext resp)\<rparr>) True) s)"
      using u True by simp
    ultimately show ?thesis by blast
  next
    case False
    have u: "on_message D send_ok clk raw s = on_message_failed raw (emit ?ack s)"
      using unfold False by (simp only: if_False)
    have "trace (on_message D send_ok clk raw s)
            = trace s @ ?ack # map Log [ErrorOnMessage, DebugOnMessage (take 50 raw)]
        \<and> \<not> list_ex is_send (map Log [ErrorOnMessage, DebugOnMessage (take 50 raw)])"
      by (simp only: u) (simp add: on_message_failed_def)
    then have "\<exists>rest. trace (on_message D send_ok clk raw s) = trace s @ ?ack # rest
        \<and> \<not> list_ex is_send rest" by blast
    then show ?thesis using False by blast
  qed
qed

theorem ack_sent_before_dispatch_witness:
  "(\<exists>rest. trace (on_message demo_codec True (\<lambda>i. 100) [7, 0, 1, 5] demo_crawler)
       = WsSend (7 # map of_char ''ext'') True # rest \<and> \<not> list_ex is_send rest)
   \<and> length (chat_messages (data (on_message demo_codec True (\<lambda>i. 100) [7, 0, 1, 5] demo_crawler))) = 1"
proof -
  have h1: "parse_push_frame demo_codec [7, 0, 1, 5]
      = Some \<lparr>log_id = 7, payload_type = ''msg'', frame_payload = [0, 1, 5]\<rparr>" by simp
  have h2: "gzip_decompress demo_codec
      (frame_payload \<lparr>log_id = 7, payload_type = ''msg'', frame_payload = [0, 1, 5]\<rparr>) = Some [1, 5]"
    by simp
  have h3: "parse_response demo_codec [1, 5]
      = Some \<lparr>messages_list = [\<lparr>msg_method = ''WebcastChatMessage'', payload = [5]\<rparr>],
              need_ack = True, internal_ext = ''ext''\<rparr>" by simp
  have h4: "need_ack \<lparr>messages_list = [\<lparr>msg_method = ''WebcastChatMessage'', payload = [5]\<rparr>],
              need_ack = True, internal_ext = ''ext''\<rparr>" by simp
  note t = ack_sent_before_dispatch [OF h1 h2 h3 h4, of True "\<lambda>i. 100" demo_crawler]
  from t [THEN conjunct1] have a: "\<exists>rest. trace (on_message demo_codec True (\<lambda>i. 100) [7, 0, 1, 5] demo_crawler)
       = WsSend (7 # map of_char ''ext'') True # rest \<and> \<not> list_ex is_send rest"
    by simp
  from t [THEN conjunct2] have b: "on_message demo_codec True (\<lambda>i. 100) [7, 0, 1, 5] demo_crawler
       = process_messages demo_codec (\<lambda>i. 100) [\<lparr>msg_method = ''WebcastChatMessage'', payload = [5]\<rparr>]
           (emit (WsSend (7 # map of_char ''ext'') True) demo_crawler)"
    by simp
  have d: "chat_messages (data demo_crawler) = []"
    by (simp add: demo_crawler_def init_def Let_def)
  have c: "length (chat_messages (data (on_message demo_codec True (\<lambda>i. 100) [7, 0, 1, 5] demo_crawler))) = 1"
    by (simp add: b d process_message_def process_chat_message_def Let_def)
  from a c show ?thesis by (intro conjI)
qed

section \<open>Connection loop\<close>

lemma connect_loop_ended:
  "\<not> (running i \<and> rc < max_retries) \<Longrightarrow>
   connect_loop running attempt i rc evs = \<lparr>events = evs, retry_count = rc, exit = LoopEnded\<rparr>"
  by (subst connect_loop.simps) (simp only: if_False)

lemma connect_loop_signature_failed:
  "running i \<Longrightarrow> rc < max_retries \<Longrightarrow> attempt i = SignatureFailed \<Longrightarrow>
   connect_loop running attempt i rc evs =
     \<lparr>events = evs @ [Attempt i, LogSignatureFailed], retry_count = rc, exit = Returned\<rparr>"
  by (subst connect_loop.simps) simp

lemma connect_loop_ran_forever:
  "running i \<Longrightarrow> rc < max_retries \<Longrightarrow> attempt i = RanForever \<Longrightarrow>
   connect_loop running attempt i rc evs =
     \<lparr>events = evs @ [Attempt i, LogConnecting], retry_count = rc, exit = Broke\<rparr>"
  by (subst connect_loop.simps) simp

lemma connect_loop_raised_retry:
  "running i \<Longrightarrow> Suc rc < max_retries \<Longrightarrow> attempt i = Raised \<Longrightarrow>
   connect_loop running attempt i rc evs =
     connect_loop running attempt (Suc i) (Suc rc)
       (evs @ [Attempt i, LogRetry (Suc rc), Sleep retry_delay])"
  by (subst connect_loop.simps) simp

lemma connect_loop_raised_last:
  "running i \<Longrightarrow> rc < max_retries \<Longrightarrow> \<not> Suc rc < max_retries \<Longrightarrow> attempt i = Raised \<Longrightarrow>
   connect_loop running attempt i rc evs =
     \<lparr>events = evs @ [Attempt i, LogRetry (Suc rc), LogGiveUp], retry_count = Suc rc,
      exit = Broke\<rparr>"
  by (subst connect_loop.simps) simp

lemma connect_loop_attempts:
  "length (filter is_attempt (events (connect_loop running attempt i rc evs)))
     \<le> length (filter is_attempt evs) + (max_retries - rc)"
proof (induction "max_retries - rc" arbitrary: i rc evs)
  case 0
  then have "\<not> (running i \<and> rc < max_retries)" by simp
  then show ?case by (simp add: connect_loop_ended)
next
  case (Suc d)
  then have lt: "rc < max_retries" by simp
  show ?case
  proof (cases "running i")
    case False
    then show ?thesis by (simp add: connect_loop_ended)
  next
    case True
    show ?thesis
    proof (cases "attempt i")
      case SignatureFailed
      then show ?thesis using True lt by (simp add: connect_loop_signature_failed)
    next
      case RanForever
      then show ?thesis using True lt by (simp add: connect_loop_ran_forever)
    next
      case Raised
      show ?thesis
      proof (cases "Suc rc < max_retries")
        case False
        then show ?thesis using True lt Raised by (simp add: connect_loop_raised_last)
      next
        case more: True
        have "d = max_retries - Suc rc" using Suc.hyps(2) by simp
        then have "length (filter is_attempt (events (connect_loop running attempt (Suc i) (Suc rc)
                 (evs @ [Attempt i, LogRetry (Suc rc), Sleep retry_delay]))))
              \<le> length (filter is_attempt (evs @ [Attempt i, LogRetry (Suc rc), Sleep retry_delay]))
                 + (max_retries - Suc rc)"
          by (rule Suc.hyps(1))
        then show ?thesis
          using True Raised more by (simp add: connect_loop_raised_retry)
      qed
    qed
  qed
qed

lemma connect_loop_signature:
  assumes "\<forall>j. rc \<le> j \<and> j \<le> k \<longrightarrow> running j"
    and "\<forall>j. rc \<le> j \<and> j < k \<longrightarrow> attempt j = Raised"
    and "attempt k = SignatureFailed"
    and "k < max_retries"
    and "rc \<le> k"
  shows "connect_loop running attempt rc rc evs =
           \<lparr>events = evs @ concat (map retry_events [rc..<k]) @ [Attempt k, LogSignatureFailed],
            retry_count = k, exit = Returned\<rparr>"
  using assms
proof (induction "k - rc" arbitrary: rc evs)
  case 0
  then have "rc = k" by simp
  then show ?case
    using 0 by (simp add: connect_loop_signature_failed)
next
  case (Suc d)
  then have lt: "rc < k" by simp
  have run: "running rc" using Suc.prems(1) lt by simp
  have raised: "attempt rc = Raised" using Suc.prems(2) lt by simp
  have more: "Suc rc < max_retries" using lt Suc.prems(4) by simp
  have step: "connect_loop running attempt rc rc evs =
      connect_loop running attempt (Suc rc) (Suc rc) (evs @ retry_events rc)"
    using run more raised by (simp add: connect_loop_raised_retry retry_events_def)
  have "connect_loop running attempt (Suc rc) (Suc rc) (evs @ retry_events rc) =
      \<lparr>events = (evs @ retry_events rc) @ concat (map retry_events [Suc rc..<k])
                 @ [Attempt k, LogSignatureFailed],
       retry_count = k, exit = Returned\<rparr>"
  proof (rule Suc.hyps(1))
    show "d = k - Suc rc" using Suc.hyps(2) by simp
    show "\<forall>j. Suc rc \<le> j \<and> j \<le> k \<longrightarrow> running j" using Suc.prems(1) by simp
    show "\<forall>j. Suc rc \<le> j \<and> j < k \<longrightarrow> attempt j = Raised" using Suc.prems(2) by simp
    show "attempt k = SignatureFailed" by (rule Suc.prems(3))
    show "k < max_retries" by (rule Suc.prems(4))
    show "Suc rc \<le> k" using lt by simp
  qed
  then show ?case
    using lt by (simp add: step upt_conv_Cons)
qed

lemma connect_loop_all_raised:
  assumes "\<forall>j<max_retries. running j \<and> attempt j = Raised"
  shows "connectWebSocket running attempt =
     \<lparr>events = retry_events 0 @ retry_events 1 @ [Attempt 2, LogRetry 3, LogGiveUp],
      retry_count = 3, exit = Broke\<rparr>"
proof -
  have r0: "running 0" "attempt 0 = Raised" using assms by (simp_all add: max_retries_def)
  have r1: "running (Suc 0)" "attempt (Suc 0) = Raised"
    using assms by (simp_all add: max_retries_def)
  have r2: "running (Suc (Suc 0))" "attempt (Suc (Suc 0)) = Raised"
    using assms by (simp_all add: max_retries_def)
  have "connect_loop running attempt 0 0 [] =
          connect_loop running attempt (Suc 0) (Suc 0) ([] @ retry_events 0)"
    using r0 by (simp add: connect_loop_raised_retry retry_events_def max_retries_def)
  also have "\<dots> = connect_loop running attempt (Suc (Suc 0)) (Suc (Suc 0))
                    (([] @ retry_events 0) @ retry_events (Suc 0))"
    using r1 by (simp add: connect_loop_raised_retry retry_events_def max_retries_def)
  also have "\<dots> = \<lparr>events = (([] @ retry_events 0) @ retry_events (Suc 0))
                        @ [Attempt (Suc (Suc 0)), LogRetry (Suc (Suc (Suc 0))), LogGiveUp],
                     retry_count = Suc (Suc (Suc 0)), exit = Broke\<rparr>"
    using r2 by (intro connect_loop_raised_last) (simp_all add: max_retries_def)
  finally show ?thesis
    by (simp add: connectWebSocket_def numeral_2_eq_2 numeral_3_eq_3)
qed


text \<open>
  Claim C5, as the code has it. The loop makes at most three attempts; an attempt that
  raises consumes a retry slot and is followed by a 3 second sleep while slots remain.
  A signature failure consumes no slot and causes no sleep, but it does not leave the
  loop running: \<open>_connectWebSocket\<close> returns, so the attempt that failed is the last one.
\<close>

theorem signature_failure_ends_connect_loop:
  assumes "\<forall>j\<le>k. running j"
    and "\<forall>j<k. attempt j = Raised"
    and "attempt k = SignatureFailed"
    and "k < max_retries"
  shows "connectWebSocket running attempt =
           \<lparr>events = concat (map retry_events [0..<k]) @ [Attempt k, LogSignatureFailed],
            retry_count = k, exit = Returned\<rparr>
       \<and> length (filter is_attempt (events (connectWebSocket running' attempt'))) \<le> max_retries
       \<and> ((\<forall>j<max_retries. running' j \<and> attempt' j = Raised) \<longrightarrow>
            connectWebSocket running' attempt' =
              \<lparr>events = retry_events 0 @ retry_events 1 @ [Attempt 2, LogRetry 3, LogGiveUp],
               retry_count = 3, exit = Broke\<rparr>)"
proof -
  have a: "connectWebSocket running attempt =
           \<lparr>events = concat (map retry_events [0..<k]) @ [Attempt k, LogSignatureFailed],
            retry_count = k, exit = Returned\<rparr>"
    using connect_loop_signature [of 0 k running attempt "[]"] assms
    by (simp add: connectWebSocket_def)
  have b: "length (filter is_attempt (events (connectWebSocket running' attempt'))) \<le> max_retries"
    using connect_loop_attempts [of running' attempt' 0 0 "[]"]
    by (simp add: connectWebSocket_def)
  show ?thesis
    using a b connect_loop_all_raised [of running' attempt'] by blast
qed

theorem signature_failure_ends_connect_loop_witness:
  "connectWebSocket keeps_running raises_then_signature_fails =
     \<lparr>events = [Attempt 0, LogRetry 1, Sleep 3, Attempt 1, LogSignatureFailed],
      retry_count = 1, exit = Returned\<rparr>
   \<and> connectWebSocket keeps_running always_raises =
     \<lparr>events = [Attempt 0, LogRetry 1, Sleep 3, Attempt 1, LogRetry 2, Sleep 3,
                Attempt 2, LogRetry 3, LogGiveUp],
      retry_count = 3, exit = Broke\<rparr>"
proof -
  have h1: "\<forall>j\<le>1. keeps_running j" by (simp add: keeps_running_def)
  have h2: "\<forall>j<1. raises_then_signature_fails j = Raised"
    by (simp add: raises_then_signature_fails_def)
  have h3: "raises_then_signature_fails 1 = SignatureFailed"
    by (simp add: raises_then_signature_fails_def)
  have h4: "1 < max_retries" by (simp add: max_retries_def)
  have h5: "\<forall>j<max_retries. keeps_running j \<and> always_raises j = Raised"
    by (simp add: keeps_running_def always_raises_def)
  note t = signature_failure_ends_connect_loop [OF h1 h2 h3 h4, of keeps_running always_raises]
  from t have a: "connectWebSocket keeps_running raises_then_signature_fails =
      \<lparr>events = concat (map retry_events [0..<1]) @ [Attempt 1, LogSignatureFailed],
       retry_count = 1, exit = Returned\<rparr>"
    by (elim conjE)
  from t h5 have b: "connectWebSocket keeps_running always_raises =
      \<lparr>events = retry_events 0 @ retry_events 1 @ [Attempt 2, LogRetry 3, LogGiveUp],
       retry_count = 3, exit = Broke\<rparr>"
    by (elim conjE impE)
  from a have a': "connectWebSocket keeps_running raises_then_signature_fails =
     \<lparr>events = [Attempt 0, LogRetry 1, Sleep 3, Attempt 1, LogSignatureFailed],
      retry_count = 1, exit = Returned\<rparr>"
    by (simp add: retry_events_def retry_delay_def)
  from b have b': "connectWebSocket keeps_running always_raises =
     \<lparr>events = [Attempt 0, LogRetry 1, Sleep 3, Attempt 1, LogRetry 2, Sleep 3,
                Attempt 2, LogRetry 3, LogGiveUp],
      retry_count = 3, exit = Broke\<rparr>"
    by (simp add: retry_events_def retry_delay_def)
  from a' b' show ?thesis by (intro conjI)
qed

text \<open>
  The claim as stated fails: the signature fails at the first attempt, every retry slot
  is unused and the second attempt would have connected, yet the first attempt is the
  only one.
\<close>

theorem signature_failure_leaves_attempts_counterexample:
  "events (connectWebSocket keeps_running signature_fails_first) = [Attempt 0, LogSignatureFailed]
   \<and> Attempt 1 \<notin> set (events (connectWebSocket keeps_running signature_fails_first))
   \<and> retry_count (connectWebSocket keeps_running signature_fails_first) = 0
   \<and> exit (connectWebSocket keeps_running signature_fails_first) = Returned
   \<and> keeps_running 1
   \<and> signature_fails_first 1 = RanForever"
  by (simp add: connectWebSocket_def connect_loop_signature_failed keeps_running_def
      signature_fails_first_def max_retries_def)

section \<open>Room resolution\<close>

lemma demo_order_faithful: "fset_of_list (demo_order S) = S"
  by (simp add: demo_order_def)

lemma demo_page_offline_search: "search_room_id (response_text demo_page_offline) = None"
  by (simp add: demo_page_offline_def match_room_id_here_def room_id_prefix_def)


text \<open>
  Claim C9, as the code has it. With no room id cached: when the page is fetched and holds
  no \<open>roomId\<close> pattern, \<open>room_id\<close> gives the live id, caches it, sets \<open>is_live\<close> to
  false and logs a warning; when the GET itself fails, \<open>room_id\<close> logs the error, gives
  \<open>None\<close> and leaves \<open>is_live\<close> and the cache as they were. Before either line, the read
  of \<open>ttwid\<close> for the request headers logs its own error when it has to fetch the home
  page and that request fails.
\<close>

theorem room_id_fallback:
  assumes "\<not> truthy (room_id_cache s)"
  shows "(page = None \<longrightarrow>
            fst (room_id home page s) = None
          \<and> is_live (snd (room_id home page s)) = is_live s
          \<and> room_id_cache (snd (room_id home page s)) = room_id_cache s
          \<and> trace (snd (room_id home page s))
              = trace s
                @ (if \<not> truthy (ttwid_cache s) \<and> home = None then [Log ErrorHomePage] else [])
                @ [Log ErrorRoomPage])
       \<and> (\<forall>r. page = Some r \<and> search_room_id (response_text r) = None \<longrightarrow>
            fst (room_id home page s) = Some (live_id s)
          \<and> is_live (snd (room_id home page s)) = False
          \<and> room_id_cache (snd (room_id home page s)) = Some (live_id s)
          \<and> trace (snd (room_id home page s))
              = trace s
                @ (if \<not> truthy (ttwid_cache s) \<and> home = None then [Log ErrorHomePage] else [])
                @ [Log WarnNoRoomId])"
proof -
  have tw: "trace (snd (ttwid home s))
              = trace s
                @ (if \<not> truthy (ttwid_cache s) \<and> home = None then [Log ErrorHomePage] else [])"
    by (simp add: ttwid_def split: option.splits)
  show ?thesis
    using assms by (simp add: room_id_def Let_def tw)
qed

theorem room_id_fallback_witness:
  "fst (room_id (Some demo_home) (Some demo_page_offline) demo_crawler) = Some ''X''
   \<and> is_live (snd (room_id (Some demo_home) (Some demo_page_offline) demo_crawler)) = False
   \<and> room_id_cache (snd (room_id (Some demo_home) (Some demo_page_offline) demo_crawler))
       = Some ''X''
   \<and> trace (snd (room_id (Some demo_home) (Some demo_page_offline) demo_crawler))
       = [Log WarnNoRoomId]
   \<and> fst (room_id (Some demo_home) None demo_crawler) = None
   \<and> is_live (snd (room_id (Some demo_home) None demo_crawler)) = True
   \<and> room_id_cache (snd (room_id (Some demo_home) None demo_crawler)) = None
   \<and> trace (snd (room_id (Some demo_home) None demo_crawler)) = [Log ErrorRoomPage]
   \<and> trace (snd (room_id None None demo_crawler)) = [Log ErrorHomePage, Log ErrorRoomPage]"
proof -
  have h: "\<not> truthy (room_id_cache demo_crawler)" by simp
  note found = room_id_fallback [OF h, of "Some demo_page_offline" "Some demo_home",
      THEN conjunct2, THEN spec, of demo_page_offline]
  note failed = room_id_fallback [OF h, of None "Some demo_home", THEN conjunct1]
  note both_failed = room_id_fallback [OF h, of None None, THEN conjunct1]
  from found have a: "fst (room_id (Some demo_home) (Some demo_page_offline) demo_crawler)
        = Some ''X''
      \<and> is_live (snd (room_id (Some demo_home) (Some demo_page_offline) demo_crawler)) = False
      \<and> room_id_cache (snd (room_id (Some demo_home) (Some demo_page_offline) demo_crawler))
        = Some ''X''
      \<and> trace (snd (room_id (Some demo_home) (Some demo_page_offline) demo_crawler))
        = [Log WarnNoRoomId]"
    by (simp add: demo_page_offline_search)
  from failed have b: "fst (room_id (Some demo_home) None demo_crawler) = None
      \<and> is_live (snd (room_id (Some demo_home) None demo_crawler)) = True
      \<and> room_id_cache (snd (room_id (Some demo_home) None demo_crawler)) = None
      \<and> trace (snd (room_id (Some demo_home) None demo_crawler)) = [Log ErrorRoomPage]"
    by simp
  from both_failed
  have c: "trace (snd (room_id None None demo_crawler)) = [Log ErrorHomePage, Log ErrorRoomPage]"
    by simp
  from a b c show ?thesis by (simp only: simp_thms)
qed

text \<open>
  The claim as stated fails on a failed GET: the page request raises, and \<open>room_id\<close> is
  \<open>None\<close>, not the live id, with \<open>is_live\<close> still true.
\<close>

theorem room_id_http_failure_counterexample:
  "fst (room_id (Some demo_home) None demo_crawler) = None
   \<and> fst (room_id (Some demo_home) None demo_crawler) \<noteq> Some (live_id demo_crawler)
   \<and> is_live (snd (room_id (Some demo_home) None demo_crawler)) = True"
  by (simp add: room_id_def Let_def)


section \<open>Snapshot writer\<close>

lemma listify_senders_fields [simp]:
  "count (listify_senders to_list st) = count st"
  "total_value (listify_senders to_list st) = total_value st"
  "\<not> is_set (senders (listify_senders to_list st))"
  by (cases "senders st"; simp add: listify_senders_def)+

lemma listify_senders_elems:
  assumes "\<forall>S. fset_of_list (to_list S) = S"
  shows "elems (senders (listify_senders to_list st)) = elems (senders st)"
  using assms by (cases "senders st") (simp_all add: listify_senders_def)

lemma save_data_gifts:
  "gifts (data (save_data to_list fs_ok now s))
     = map (\<lambda>(gift_name, gift_data). (gift_name, listify_senders to_list gift_data))
         (gifts (data s))"
  by (simp add: save_data_def Let_def)

lemma save_data_rest:
  "(data (save_data to_list fs_ok now s))\<lparr>gifts := gifts (data s)\<rparr> = data s"
  by (simp add: save_data_def Let_def)

lemma map_of_listify:
  "map_of (map (\<lambda>(gift_name, gift_data). (gift_name, listify_senders to_list gift_data)) gs) g
     = map_option (listify_senders to_list) (map_of gs g)"
  by (induction gs) auto

lemma demo_gifted_gifts:
  "gifts (data demo_gifted)
     = [(''rose'', \<lparr>count = 3, total_value = 15, senders = PySet {|''ann''|}\<rparr>)]"
  by (simp add: demo_gifted_def process_message_def process_gift_message_def Let_def
      new_gift_stat_def demo_user_def)


lemma stat_of_save_data:
  assumes "\<forall>S. fset_of_list (to_list S) = S"
  shows "count (stat_of (save_data to_list fs_ok now s) g) = count (stat_of s g)"
    and "total_value (stat_of (save_data to_list fs_ok now s) g) = total_value (stat_of s g)"
    and "elems (senders (stat_of (save_data to_list fs_ok now s) g))
           = elems (senders (stat_of s g))"
  using listify_senders_elems [OF assms]
  by (cases "map_of (gifts (data s)) g"; simp add: stat_of_def save_data_gifts map_of_listify)+

text \<open>
  Claim C6, as the code has it. A snapshot write leaves every field of the aggregate but
  \<open>gifts\<close> as it was, \<open>members\<close> with its representation; in \<open>gifts\<close> the names, their
  order, each \<open>count\<close> and each \<open>total_value\<close> stay, and each \<open>senders\<close> keeps its elements
  but is a list afterwards, whenever the order that \<open>list\<close> picks holds exactly the
  elements of the set. The next Gift event for a name finds the list and makes a set of
  it again: its GiftStat is the one it would have been without the snapshot write.
\<close>

theorem save_data_keeps_values:
  assumes "\<forall>S. fset_of_list (to_list S) = S"
  shows "(data (save_data to_list fs_ok now s))\<lparr>gifts := gifts (data s)\<rparr> = data s
       \<and> members (data (save_data to_list fs_ok now s)) = members (data s)
       \<and> cache_members (save_data to_list fs_ok now s) = cache_members s
       \<and> map fst (gifts (data (save_data to_list fs_ok now s))) = map fst (gifts (data s))
       \<and> (\<forall>g st. map_of (gifts (data s)) g = Some st \<longrightarrow>
            (\<exists>st'. map_of (gifts (data (save_data to_list fs_ok now s))) g = Some st'
               \<and> count st' = count st \<and> total_value st' = total_value st
               \<and> elems (senders st') = elems (senders st)
               \<and> \<not> is_set (senders st')))
       \<and> (\<forall>D m e. parse_gift D (payload m) = Some e \<longrightarrow>
            map_of (gifts (data (process_gift_message D m (save_data to_list fs_ok now s))))
                (name (gift e))
              = map_of (gifts (data (process_gift_message D m s))) (name (gift e)))"
proof -
  have keys: "map fst (gifts (data (save_data to_list fs_ok now s))) = map fst (gifts (data s))"
    by (simp add: save_data_gifts case_prod_unfold comp_def)
  have each: "\<exists>st'. map_of (gifts (data (save_data to_list fs_ok now s))) g = Some st'
               \<and> count st' = count st \<and> total_value st' = total_value st
               \<and> elems (senders st') = elems (senders st)
               \<and> \<not> is_set (senders st')"
    if "map_of (gifts (data s)) g = Some st" for g st
    using that listify_senders_elems [OF assms]
    by (simp add: save_data_gifts map_of_listify)
  have again: "map_of (gifts (data (process_gift_message D m (save_data to_list fs_ok now s))))
                (name (gift e))
              = map_of (gifts (data (process_gift_message D m s))) (name (gift e))"
    if "parse_gift D (payload m) = Some e" for D m e
    by (simp add: process_gift_message_stat [OF that] stat_of_save_data [OF assms])
  show ?thesis
    using keys each again by (simp add: save_data_rest)
qed

theorem save_data_keeps_values_witness:
  "(\<exists>st'. map_of (gifts (data (save_data demo_order True 50 demo_gifted))) ''rose'' = Some st'
     \<and> count st' = 3 \<and> total_value st' = 15 \<and> elems (senders st') = {|''ann''|}
     \<and> \<not> is_set (senders st'))
   \<and> map_of (gifts (data (process_gift_message demo_codec
          \<lparr>msg_method = ''WebcastGiftMessage'', payload = [200]\<rparr>
          (save_data demo_order True 50 demo_gifted)))) ''rose''
      = Some \<lparr>count = 203, total_value = 1015, senders = PySet {|''bob'', ''ann''|}\<rparr>"
proof -
  let ?m = "\<lparr>msg_method = ''WebcastGiftMessage'', payload = [200]\<rparr>"
  let ?e = "\<lparr>gift_user = demo_user 200, gift = \<lparr>name = ''rose'', diamond_count = 5\<rparr>,
             repeat_count = uint (200 :: 8 word)\<rparr>"
  have h: "\<forall>S. fset_of_list (demo_order S) = S" by (simp add: demo_order_faithful)
  have g: "map_of (gifts (data demo_gifted)) ''rose''
             = Some \<lparr>count = 3, total_value = 15, senders = PySet {|''ann''|}\<rparr>"
    by (simp add: demo_gifted_gifts)
  have p: "parse_gift demo_codec (payload ?m) = Some ?e" by simp
  note t = save_data_keeps_values [OF h, where fs_ok = True and now = 50 and s = demo_gifted]
  from t g
  have "\<exists>st'. map_of (gifts (data (save_data demo_order True 50 demo_gifted))) ''rose'' = Some st'
     \<and> count st' = count \<lparr>count = 3, total_value = 15, senders = PySet {|''ann''|}\<rparr>
     \<and> total_value st' = total_value \<lparr>count = 3, total_value = 15, senders = PySet {|''ann''|}\<rparr>
     \<and> elems (senders st') = elems (senders \<lparr>count = 3, total_value = 15, senders = PySet {|''ann''|}\<rparr>)
     \<and> \<not> is_set (senders st')"
    by blast
  then have a: "\<exists>st'. map_of (gifts (data (save_data demo_order True 50 demo_gifted))) ''rose'' = Some st'
     \<and> count st' = 3 \<and> total_value st' = 15 \<and> elems (senders st') = {|''ann''|}
     \<and> \<not> is_set (senders st')"
    by simp
  from t p
  have "map_of (gifts (data (process_gift_message demo_codec ?m
            (save_data demo_order True 50 demo_gifted)))) (name (gift ?e))
      = map_of (gifts (data (process_gift_message demo_codec ?m demo_gifted))) (name (gift ?e))"
    by blast
  then have b: "map_of (gifts (data (process_gift_message demo_codec ?m
            (save_data demo_order True 50 demo_gifted)))) ''rose''
      = Some \<lparr>count = 203, total_value = 1015, senders = PySet {|''bob'', ''ann''|}\<rparr>"
    by (simp add: process_gift_message_stat [OF p] stat_of_def demo_gifted_gifts demo_user_def)
  from a b show ?thesis by (intro conjI)
qed

text \<open>
  The claim as stated fails: after one Gift event \<open>senders\<close> is a set, and after the
  snapshot write the live aggregate holds a list there.
\<close>

theorem save_data_changes_senders_counterexample:
  "map_of (gifts (data demo_gifted)) ''rose''
     = Some \<lparr>count = 3, total_value = 15, senders = PySet {|''ann''|}\<rparr>
   \<and> map_of (gifts (data (save_data demo_order True 50 demo_gifted))) ''rose''
     = Some \<lparr>count = 3, total_value = 15, senders = PyList (demo_order {|''ann''|})\<rparr>
   \<and> data (save_data demo_order True 50 demo_gifted) \<noteq> data demo_gifted"
proof -
  have a: "gifts (data (save_data demo_order True 50 demo_gifted))
      = [(''rose'', \<lparr>count = 3, total_value = 15, senders = PyList (demo_order {|''ann''|})\<rparr>)]"
    by (simp add: save_data_gifts demo_gifted_gifts listify_senders_def)
  have "gifts (data (save_data demo_order True 50 demo_gifted)) \<noteq> gifts (data demo_gifted)"
    by (simp add: a demo_gifted_gifts)
  then have "data (save_data demo_order True 50 demo_gifted) \<noteq> data demo_gifted"
    by auto
  then show ?thesis by (simp add: a demo_gifted_gifts)
qed

section \<open>Session ordinal\<close>

lemma wild_Lit_append:
  "wild (map Lit a @ ps) s \<longleftrightarrow> (\<exists>r. s = a @ r \<and> wild ps r)"
proof (induction a arbitrary: s)
  case Nil
  then show ?case by simp
next
  case (Cons c a)
  then show ?case by (cases s) auto
qed

lemma wild_Star:
  "wild (Star # ps) s \<longleftrightarrow> (\<exists>a r. s = a @ r \<and> wild ps r)"
proof (induction s)
  case Nil
  then show ?case by simp
next
  case (Cons x xs)
  show ?case
  proof
    assume "wild (Star # ps) (x # xs)"
    then consider "wild ps (x # xs)" | "wild (Star # ps) xs" by auto
    then show "\<exists>a r. x # xs = a @ r \<and> wild ps r"
    proof cases
      case 1
      then have "x # xs = [] @ (x # xs) \<and> wild ps (x # xs)" by simp
      then show ?thesis by blast
    next
      case 2
      then obtain a r where "xs = a @ r" "wild ps r" using Cons.IH by blast
      then have "x # xs = (x # a) @ r \<and> wild ps r" by simp
      then show ?thesis by blast
    qed
  next
    assume "\<exists>a r. x # xs = a @ r \<and> wild ps r"
    then obtain a r where ar: "x # xs = a @ r" "wild ps r" by blast
    show "wild (Star # ps) (x # xs)"
    proof (cases a)
      case Nil
      then have "wild ps (x # xs)" using ar by simp
      then show ?thesis by simp
    next
      case c: (Cons y ys)
      then have "xs = ys @ r" using ar by simp
      then have "wild (Star # ps) xs" using Cons.IH ar(2) by blast
      then show ?thesis by simp
    qed
  qed
qed

lemma wild_Lit: "wild (Lit c # ps) s \<longleftrightarrow> (\<exists>r. s = c # r \<and> wild ps r)"
  by (cases s) auto

lemma wild_session_pattern:
  "wild (session_pattern lid) f \<longleftrightarrow>
     (\<exists>a b. f = lid @ CHR ''_'' # a @ CHR ''_'' # b @ ''.json'')"
proof -
  have suffix: "wild (map Lit ''.json'') r \<longleftrightarrow> r = ''.json''" for r
    using wild_Lit_append [of "''.json''" "[]" r] by auto
  have "wild (session_pattern lid) f \<longleftrightarrow>
      (\<exists>r. f = lid @ r \<and> wild (Lit (CHR ''_'') # Star # Lit (CHR ''_'') # Star # map Lit ''.json'') r)"
    unfolding session_pattern_def by (simp only: wild_Lit_append append.simps)
  also have "\<dots> \<longleftrightarrow> (\<exists>a b. f = lid @ CHR ''_'' # a @ CHR ''_'' # b @ ''.json'')"
    by (simp only: wild_Lit wild_Star suffix) (metis append_Cons append_Nil)
  finally show ?thesis .
qed

lemma split_on_first:
  "c \<notin> set a \<Longrightarrow> split_on c (a @ c # r) = a # split_on c r"
  by (induction a) (auto split: list.splits)

lemma first_separator_unique:
  assumes "xs @ c # r = ys @ c # t" and "c \<notin> set xs" and "c \<notin> set ys"
  shows "xs = ys"
  using assms
proof (induction xs arbitrary: ys)
  case Nil
  then show ?case by (cases ys) auto
next
  case (Cons x xs)
  then show ?case by (cases ys) auto
qed

lemma ordinal_of_snapshot_name:
  assumes "CHR ''_'' \<notin> set l"
  shows "ordinal_of (snapshot_name l n d) = Some n"
proof -
  have "split_on (CHR ''_'') (snapshot_name l n d)
          = l # str_int n # split_on (CHR ''_'') (d @ ''.json'')"
    using assms str_int_no_underscore [of n]
    by (simp add: snapshot_name_def split_on_first)
  then show ?thesis by (simp add: ordinal_of_def py_int_str_int)
qed

lemma snapshot_name_matches:
  assumes "CHR ''_'' \<notin> set l" and "CHR ''_'' \<notin> set lid"
  shows "wild (session_pattern lid) (snapshot_name l n d) \<longleftrightarrow> l = lid"
proof
  assume "wild (session_pattern lid) (snapshot_name l n d)"
  then have "\<exists>a b. snapshot_name l n d = lid @ CHR ''_'' # a @ CHR ''_'' # b @ ''.json''"
    by (simp only: wild_session_pattern)
  then obtain a b where "snapshot_name l n d = lid @ CHR ''_'' # a @ CHR ''_'' # b @ ''.json''"
    by (elim exE)
  then have "l @ CHR ''_'' # (str_int n @ ''_'' @ d @ ''.json'')
               = lid @ CHR ''_'' # (a @ CHR ''_'' # b @ ''.json'')"
    by (simp add: snapshot_name_def)
  then show "l = lid"
    using assms by (rule first_separator_unique)
next
  assume "l = lid"
  then have "snapshot_name l n d = lid @ CHR ''_'' # str_int n @ CHR ''_'' # d @ ''.json''"
    by (simp add: snapshot_name_def)
  then have "\<exists>a b. snapshot_name l n d = lid @ CHR ''_'' # a @ CHR ''_'' # b @ ''.json''"
    by (intro exI)
  then show "wild (session_pattern lid) (snapshot_name l n d)"
    by (simp only: wild_session_pattern)
qed

lemma session_step_ordinal:
  "session_step mx f = (case ordinal_of f of None \<Rightarrow> mx | Some c \<Rightarrow> max mx c)"
  by (simp add: session_step_def ordinal_of_def split: option.splits)

lemma finite_ordinals: "finite {c. \<exists>f\<in>set fs. ordinal_of f = Some c}"
proof -
  have "{c. \<exists>f\<in>set fs. ordinal_of f = Some c} \<subseteq> (\<lambda>f. the (ordinal_of f)) ` set fs"
  proof
    fix c
    assume "c \<in> {c. \<exists>f\<in>set fs. ordinal_of f = Some c}"
    then obtain f where f: "f \<in> set fs" "ordinal_of f = Some c" by blast
    then have "c = the (ordinal_of f)" by simp
    then show "c \<in> (\<lambda>f. the (ordinal_of f)) ` set fs" using f(1) by (rule image_eqI)
  qed
  then show ?thesis by (rule finite_subset) simp
qed

lemma foldl_session_step:
  "foldl session_step a fs = Max (insert a {c. \<exists>f\<in>set fs. ordinal_of f = Some c})"
proof (induction fs arbitrary: a)
  case Nil
  then show ?case by simp
next
  case (Cons f fs)
  let ?S = "{c. \<exists>f\<in>set fs. ordinal_of f = Some c}"
  have fin: "finite ?S" by (rule finite_ordinals)
  show ?case
  proof (cases "ordinal_of f")
    case None
    then have eq: "{c. \<exists>g\<in>set (f # fs). ordinal_of g = Some c} = ?S" by auto
    have "foldl session_step a (f # fs) = foldl session_step a fs"
      using None by (simp add: session_step_ordinal)
    also have "\<dots> = Max (insert a ?S)" by (rule Cons.IH)
    finally show ?thesis by (simp only: eq)
  next
    case (Some c)
    then have eq: "{c. \<exists>g\<in>set (f # fs). ordinal_of g = Some c} = insert c ?S" by auto
    have "foldl session_step a (f # fs) = foldl session_step (max a c) fs"
      using Some by (simp add: session_step_ordinal)
    also have "\<dots> = Max (insert (max a c) ?S)" by (rule Cons.IH)
    also have "\<dots> = Max (insert a (insert c ?S))"
    proof (cases "?S = {}")
      case True
      then show ?thesis by simp
    next
      case False
      then show ?thesis using fin by (simp add: max.assoc)
    qed
    finally show ?thesis by (simp only: eq)
  qed
qed

lemma ordinals_of_directory:
  assumes "CHR ''_'' \<notin> set lid"
    and "\<forall>(l, n, d)\<in>set entries. CHR ''_'' \<notin> set l"
  shows "{c. \<exists>f\<in>set (filter (wild (session_pattern lid))
                        (map (\<lambda>(l, n, d). snapshot_name l n d) entries)).
              ordinal_of f = Some c}
           = {n. \<exists>d. (lid, n, d) \<in> set entries}"
    (is "?L = ?R")
proof (rule set_eqI)
  fix c
  show "c \<in> ?L \<longleftrightarrow> c \<in> ?R"
  proof
    assume "c \<in> ?L"
    then obtain f where ff: "f \<in> set (filter (wild (session_pattern lid))
                        (map (\<lambda>(l, n, d). snapshot_name l n d) entries))"
      and c: "ordinal_of f = Some c"
      by blast
    from ff have f: "f \<in> (\<lambda>(l, n, d). snapshot_name l n d) ` set entries"
      and w: "wild (session_pattern lid) f" by simp_all
    from f obtain e where fe: "f = (\<lambda>(l, n, d). snapshot_name l n d) e" and e: "e \<in> set entries"
      by (rule imageE)
    obtain l n d where lnd: "e = (l, n, d)" by (cases e) auto
    have fn: "f = snapshot_name l n d" using fe lnd by simp
    have ul: "CHR ''_'' \<notin> set l" using assms(2) e lnd by auto
    have "l = lid" using w fn snapshot_name_matches [OF ul assms(1)] by simp
    moreover have "c = n" using c fn ordinal_of_snapshot_name [OF ul] by simp
    ultimately have "(lid, c, d) \<in> set entries" using e lnd by simp
    then show "c \<in> ?R" by blast
  next
    assume "c \<in> ?R"
    then obtain d where e: "(lid, c, d) \<in> set entries" by blast
    have "(\<lambda>(l, n, d). snapshot_name l n d) (lid, c, d)
            \<in> (\<lambda>(l, n, d). snapshot_name l n d) ` set entries"
      using e by (rule imageI)
    then have "snapshot_name lid c d \<in> set (map (\<lambda>(l, n, d). snapshot_name l n d) entries)"
      by simp
    moreover have "wild (session_pattern lid) (snapshot_name lid c d)"
      using snapshot_name_matches [OF assms(1) assms(1)] by simp
    ultimately have "snapshot_name lid c d \<in> set (filter (wild (session_pattern lid))
                        (map (\<lambda>(l, n, d). snapshot_name l n d) entries))"
      by simp
    moreover have "ordinal_of (snapshot_name lid c d) = Some c"
      by (rule ordinal_of_snapshot_name [OF assms(1)])
    ultimately show "c \<in> ?L" by blast
  qed
qed


text \<open>
  Where the file names are unambiguous the ordinal is right. Let the data directory hold
  snapshot files \<open><l>_<n>_<d>.json\<close> written for live ids without an underscore, and let the
  live id hold none of \<open>_ * ? [\<close> (the file-name separator and the glob metacharacters).
  Then the session ordinal set by \<open>__init__\<close> is one more than the largest ordinal among the
  files of this live id (1 when there is none), and no later operation changes it. With
  files of ordinals 1 and 2 for live id \<open>X\<close> the new session has ordinal 3.
\<close>

lemma session_ordinal_without_underscore:
  assumes "set lid \<inter> set ''_*?['' = {}"
    and "\<forall>(l, n, d)\<in>set entries. CHR ''_'' \<notin> set l"
  shows "session_count (run D lst ops
           (init (map (\<lambda>(l, n, d). snapshot_name l n d) entries) lid day))
         = Max (insert 0 {n. \<exists>d. (lid, n, d) \<in> set entries}) + 1"
proof -
  have u: "CHR ''_'' \<notin> set lid" using assms(1) by auto
  have "get_next_session_count (map (\<lambda>(l, n, d). snapshot_name l n d) entries) lid
          = Max (insert 0 {n. \<exists>d. (lid, n, d) \<in> set entries}) + 1"
    by (simp only: get_next_session_count_def Let_def foldl_session_step
        ordinals_of_directory [OF u assms(2)])
  then show ?thesis by (simp add: init_def Let_def)
qed

lemma session_ordinal_example:
  "session_count (run demo_codec demo_order [SaveData True 7]
     (init [''X_1_2024-01-01.json'', ''X_2_2024-01-02.json''] ''X'' ''2024-01-03'')) = 3"
proof -
  let ?entries = "[(''X'', 1 :: int, ''2024-01-01''), (''X'', 2, ''2024-01-02'')]"
  have h1: "set ''X'' \<inter> set ''_*?['' = {}" by simp
  have h2: "\<forall>(l, n, d)\<in>set ?entries. CHR ''_'' \<notin> set l" by simp
  have s1: "str_int 1 = ''1''" by code_simp
  have s2: "str_int 2 = ''2''" by code_simp
  have names: "map (\<lambda>(l, n, d). snapshot_name l n d) ?entries
                 = [''X_1_2024-01-01.json'', ''X_2_2024-01-02.json'']"
    by (simp add: snapshot_name_def s1 s2)
  have ords: "{n. \<exists>d. (''X'', n, d) \<in> set ?entries} = {1, 2}" by auto
  note t = session_ordinal_without_underscore [OF h1 h2, of demo_codec demo_order
      "[SaveData True 7]" "''2024-01-03''"]
  then show ?thesis by (simp only: names ords) simp
qed

text \<open>
  Claim C7. The session ordinal is meant to be one more than the largest ordinal among the
  files persisted for this live id. The loop takes the ordinal of a file to be the second
  field of \<open>split("_")\<close>, which is the ordinal only when the live id holds no underscore.
  For the live id \<open>a_b\<close> that field is \<open>b\<close>, \<open>int\<close> raises, and every file of the live id
  is passed over: with session 1 on disk (under the very name the first session writes),
  or with sessions 1 and 2, the new session is given ordinal 1 again. And for the live id
  \<open>X\<close> a file of session 1 of the live id \<open>X_9\<close> matches the pattern and counts as
  ordinal 9, so the new session is given ordinal 10.
\<close>

theorem session_ordinal_wrong_with_underscore:
  "snapshot_name ''a_b'' 1 ''2024-01-01'' = ''a_b_1_2024-01-01.json''
   \<and> get_next_session_count [''a_b_1_2024-01-01.json''] ''a_b'' = 1
   \<and> session_count (init [''a_b_1_2024-01-01.json''] ''a_b'' ''2024-01-01'') = 1
   \<and> get_next_session_count [''a_b_1_2024-01-01.json'', ''a_b_2_2024-01-02.json''] ''a_b'' = 1
   \<and> snapshot_name ''X_9'' 1 ''2024-01-01'' = ''X_9_1_2024-01-01.json''
   \<and> get_next_session_count [''X_9_1_2024-01-01.json''] ''X'' = 10"
proof -
  have a: "snapshot_name ''a_b'' 1 ''2024-01-01'' = ''a_b_1_2024-01-01.json''"
    by code_simp
  have b: "get_next_session_count [''a_b_1_2024-01-01.json''] ''a_b'' = 1"
    by code_simp
  have c: "session_count (init [''a_b_1_2024-01-01.json''] ''a_b'' ''2024-01-01'') = 1"
    by (simp add: init_def Let_def b)
  have d: "get_next_session_count [''a_b_1_2024-01-01.json'', ''a_b_2_2024-01-02.json''] ''a_b'' = 1"
    by code_simp
  have e: "snapshot_name ''X_9'' 1 ''2024-01-01'' = ''X_9_1_2024-01-01.json''"
    by code_simp
  have f: "get_next_session_count [''X_9_1_2024-01-01.json''] ''X'' = 10"
    by code_simp
  from a b c d e f show ?thesis by (intro conjI)
qed

end
